theory Spec2Isabelle
  imports Complex_Main "HOL-Library.Signed_Division"
begin

section \<open>Go values shared by both files\<close>

text \<open>
  A Go \<open>error\<close> value is an element of \<open>error\<close>; the nil error is \<open>None\<close> of
  \<open>error option\<close>. The two sentinels of go-msg and the two errors a context can report
  are constructors of their own; every other error is \<open>Err\<close> with its message.
\<close>

datatype error =
    ErrServerClosed
  | ErrClosedMessageWriter
  | Canceled
  | DeadlineExceeded
  | Err string

text \<open>A run-time panic: a nil pointer dereference, or \<open>panic(v)\<close> with a message.\<close>

datatype panic = NilPointer | PanicMsg string

text \<open>
  \<open>msg.Attributes\<close> is the Go type \<open>map[string][]string\<close>. It is kept as an association
  list, looked up with \<open>map_of\<close>; the order of the list is the order in which a
  \<open>range\<close> loop visits the map.
\<close>

type_synonym Attributes = "(string \<times> string list) list"

section \<open>sqs/topic.go: the message writer\<close>

record MessageAttributeValue =
  DataType :: "string option"
  StringValue :: "string option"

record SendMessageInput =
  DelaySeconds :: int
  MessageBody :: string
  QueueUrl :: string
  MessageAttributes :: "(string \<times> MessageAttributeValue) list option"

record Topic =
  topic_QueueURL :: string

text \<open>
  The fields of \<open>MessageWriter\<close> that its methods read or write. The mutex makes
  \<open>Write\<close> and \<open>Close\<close> atomic, so each is one function on this state; the context and
  the client are handed to the send call, whose answer is a parameter of \<open>Close\<close>.
  \<open>delaySeconds\<close> is an int64 on which no arithmetic is done.
\<close>

record MessageWriter =
  attributes :: Attributes
  buf :: string
  closed_w :: bool
  delaySeconds :: int
  queueURL :: string

definition NewWriter :: "Topic \<Rightarrow> MessageWriter" where
  "NewWriter t =
     \<lparr>attributes = [], buf = [], closed_w = False, delaySeconds = 0,
      queueURL = topic_QueueURL t\<rparr>"

text \<open>\<open>Write\<close> returns the pair \<open>(n, err)\<close> of the source and the writer after the call.\<close>

definition Write :: "string \<Rightarrow> MessageWriter \<Rightarrow> (nat \<times> error option) \<times> MessageWriter" where
  "Write p w =
     (if closed_w w then ((0, Some ErrClosedMessageWriter), w)
      else ((length p, None), w\<lparr>buf := buf w @ p\<rparr>))"

text \<open>\<open>strings.Join\<close>.\<close>

fun Join :: "string list \<Rightarrow> string \<Rightarrow> string" where
  "Join [] sep = []"
| "Join [v] sep = v"
| "Join (v # vs) sep = v @ sep @ Join vs sep"

text \<open>
  \<open>buildSQSAttributes\<close> visits every entry of the map and assigns \<open>attrs[k]\<close>; the keys of
  a Go map are distinct, so every entry visited gives one entry of the result.
\<close>

definition buildSQSAttributes :: "Attributes \<Rightarrow> (string \<times> MessageAttributeValue) list" where
  "buildSQSAttributes a =
     map (\<lambda>(k, v). (k, \<lparr>DataType = Some ''String'', StringValue = Some (Join v '','')\<rparr>)) a"

text \<open>The request that \<open>Close\<close> assembles from the writer.\<close>

definition params_of :: "MessageWriter \<Rightarrow> SendMessageInput" where
  "params_of w =
     \<lparr>DelaySeconds = delaySeconds w,
      MessageBody = buf w,
      QueueUrl = queueURL w,
      MessageAttributes =
        (if length (attributes w) > 0 then Some (buildSQSAttributes (attributes w)) else None)\<rparr>"

text \<open>
  \<open>Close send w\<close>: \<open>send\<close> is the answer of \<open>SendMessageWithContext\<close> to a request.
  The result is the returned error, the list of requests sent by this call, and the
  writer after the call.
\<close>

definition Close ::
  "(SendMessageInput \<Rightarrow> error option) \<Rightarrow> MessageWriter
     \<Rightarrow> error option \<times> SendMessageInput list \<times> MessageWriter" where
  "Close send w =
     (if closed_w w then (Some ErrClosedMessageWriter, [], w)
      else (let w' = w\<lparr>closed_w := True\<rparr>;
                params = params_of w'
            in (send params, [params], w')))"

text \<open>
  \<open>time.Duration\<close> is an int64 count of nanoseconds. \<open>Seconds\<close> is
  \<open>float64(d / Second) + float64(d % Second) / 1e9\<close>, with Go's truncating division and
  remainder. A float64 is represented by the real number it denotes, and the quotient
  and the sum are taken exactly: the rounding of the two float64 operations is left out.
  It moves the result by less than a nanosecond's worth and never across 0, 900 or a
  whole number of seconds, so the value stored by \<open>SetDelay\<close> is not affected.
\<close>

definition Second :: int where
  "Second = 1000000000"

definition Seconds :: "int \<Rightarrow> real" where
  "Seconds d = real_of_int (d sdiv Second) + real_of_int (d smod Second) / 1000000000"

definition math_Max :: "real \<Rightarrow> real \<Rightarrow> real" where
  "math_Max x y = (if x < y then y else x)"

definition math_Min :: "real \<Rightarrow> real \<Rightarrow> real" where
  "math_Min x y = (if y < x then y else x)"

text \<open>The conversion \<open>int64(f)\<close> drops the fraction, towards zero.\<close>

definition int64_of_float :: "real \<Rightarrow> int" where
  "int64_of_float f = (if 0 \<le> f then \<lfloor>f\<rfloor> else \<lceil>f\<rceil>)"

definition SetDelay :: "int \<Rightarrow> MessageWriter \<Rightarrow> MessageWriter" where
  "SetDelay delay w =
     w\<lparr>delaySeconds := int64_of_float (math_Min (math_Max (Seconds delay) 0) 900)\<rparr>"

text \<open>
  A caller drives a writer through its methods; \<open>Attributes()\<close> hands out a pointer to
  the attribute map, so the caller may replace the map by any other.
\<close>

datatype writer_op =
    OpWrite string
  | OpClose
  | OpSetDelay int
  | OpAttributes Attributes

datatype writer_result =
    WriteResult nat "error option"
  | CloseResult "error option"
  | NoResult

text \<open>One operation: its result, the requests it sent, the writer afterwards.\<close>

fun writer_step ::
  "(SendMessageInput \<Rightarrow> error option) \<Rightarrow> writer_op \<Rightarrow> MessageWriter
     \<Rightarrow> writer_result \<times> SendMessageInput list \<times> MessageWriter" where
  "writer_step send (OpWrite p) w =
     (case Write p w of ((n, e), w') \<Rightarrow> (WriteResult n e, [], w'))"
| "writer_step send OpClose w =
     (case Close send w of (e, sent, w') \<Rightarrow> (CloseResult e, sent, w'))"
| "writer_step send (OpSetDelay d) w = (NoResult, [], SetDelay d w)"
| "writer_step send (OpAttributes a) w = (NoResult, [], w\<lparr>attributes := a\<rparr>)"

text \<open>A sequence of operations: all results, all requests sent, the final writer.\<close>

fun writer_run ::
  "(SendMessageInput \<Rightarrow> error option) \<Rightarrow> writer_op list \<Rightarrow> MessageWriter
     \<Rightarrow> writer_result list \<times> SendMessageInput list \<times> MessageWriter" where
  "writer_run send [] w = ([], [], w)"
| "writer_run send (x # xs) w =
     (case writer_step send x w of (r, sent, w') \<Rightarrow>
        (case writer_run send xs w' of (rs, sent', w'') \<Rightarrow> (r # rs, sent @ sent', w'')))"

text \<open>What a closed writer answers to an operation.\<close>

fun closed_result :: "writer_op \<Rightarrow> writer_result" where
  "closed_result (OpWrite p) = WriteResult 0 (Some ErrClosedMessageWriter)"
| "closed_result OpClose = CloseResult (Some ErrClosedMessageWriter)"
| "closed_result (OpSetDelay d) = NoResult"
| "closed_result (OpAttributes a) = NoResult"


section \<open>The credential-aware retryer\<close>

record http_Response =
  StatusCode :: int

record Request =
  HTTPResponse :: "http_Response option"

text \<open>
  The embedded \<open>request.Retryer\<close> is an interface value of the AWS SDK: its methods are
  the fields of a record of functions. A duration is its int64 count of nanoseconds.
\<close>

record Retryer =
  RetryRules :: "Request \<Rightarrow> int"
  ShouldRetry :: "Request \<Rightarrow> bool"
  MaxRetries :: int

record DefaultRetryer =
  Retryer :: Retryer
  delay :: int

text \<open>
  Both methods read \<open>req.HTTPResponse.StatusCode\<close> through the pointer
  \<open>req.HTTPResponse\<close>; on a nil pointer the read panics.
\<close>

definition DefaultRetryer_RetryRules :: "DefaultRetryer \<Rightarrow> Request \<Rightarrow> panic + int" where
  "DefaultRetryer_RetryRules r req =
     (case HTTPResponse req of
        None \<Rightarrow> Inl NilPointer
      | Some resp \<Rightarrow>
          if StatusCode resp = 403 then Inr (delay r)
          else Inr (RetryRules (Retryer r) req))"

definition DefaultRetryer_ShouldRetry :: "DefaultRetryer \<Rightarrow> Request \<Rightarrow> panic + bool" where
  "DefaultRetryer_ShouldRetry r req =
     (case HTTPResponse req of
        None \<Rightarrow> Inl NilPointer
      | Some resp \<Rightarrow>
          if StatusCode resp = 403 then Inr True
          else Inr (ShouldRetry (Retryer r) req))"

section \<open>The server: data\<close>

text \<open>
  A received \<open>sqs.Message\<close>. Its string fields are pointers (\<open>None\<close> is nil); the
  attribute map holds pointers to attribute values, listed in the order a \<open>range\<close> loop
  visits them.
\<close>

record sqs_Message =
  MessageId :: "string option"
  Body :: "string option"
  ReceiptHandle :: "string option"
  Message_MessageAttributes :: "(string \<times> MessageAttributeValue option) list"

text \<open>The \<open>msg.Message\<close> handed to the receiver.\<close>

record msg_Message =
  m_Attributes :: Attributes
  m_Body :: string

text \<open>The calls the server makes on \<open>Svc\<close>, with the fields of their inputs.\<close>

datatype svc_call =
    ReceiveMessage int int string "string list"
      \<comment> \<open>MaxNumberOfMessages, WaitTimeSeconds, QueueUrl, MessageAttributeNames\<close>
  | ChangeMessageVisibility string "string option" int
      \<comment> \<open>QueueUrl, ReceiptHandle, VisibilityTimeout\<close>
  | DeleteMessage string "string option"
      \<comment> \<open>QueueUrl, ReceiptHandle\<close>

text \<open>
  A buffered channel of \<open>struct{}\<close>: its capacity, the number of values it holds
  (\<open>len\<close>) and whether it is closed. An operation on it blocks, panics or proceeds.
  A send proceeds when there is room; a receive proceeds when a value is buffered, and
  on a closed empty channel it proceeds at once with the zero value.
\<close>

record chan =
  chan_cap :: nat
  chan_len :: nat
  chan_closed :: bool

datatype chan_op = Blocks | Panics | Proceeds chan

definition make_chan :: "nat \<Rightarrow> chan" where
  "make_chan n = \<lparr>chan_cap = n, chan_len = 0, chan_closed = False\<rparr>"

definition chan_send :: "chan \<Rightarrow> chan_op" where
  "chan_send c =
     (if chan_closed c then Panics
      else if chan_len c < chan_cap c then Proceeds (c\<lparr>chan_len := chan_len c + 1\<rparr>)
      else Blocks)"

definition chan_recv :: "chan \<Rightarrow> chan_op" where
  "chan_recv c =
     (if 0 < chan_len c then Proceeds (c\<lparr>chan_len := chan_len c - 1\<rparr>)
      else if chan_closed c then Proceeds c
      else Blocks)"

definition chan_close :: "chan \<Rightarrow> chan_op" where
  "chan_close c = (if chan_closed c then Panics else Proceeds (c\<lparr>chan_closed := True\<rparr>))"

text \<open>
  The fields of \<open>Server\<close> that \<open>Serve\<close> and \<open>Shutdown\<close> use. A context is represented
  by whether it has been canceled; \<open>Svc\<close> and the session are outside the model, the
  answers of \<open>Svc\<close> come in as events.
\<close>

record Server =
  QueueURL :: string
  maxConcurrentReceives :: chan
  retryTimeout :: int
  receiverCtx_done :: bool
  serverCtx_done :: bool

text \<open>
  An \<open>Option\<close> is a function on the server that may fail. Outside the package only the
  exported fields can be written, and the two options of the package write \<open>Svc\<close> only:
  on the state above an option either fails or gives a queue URL.
\<close>

type_synonym Option = "string \<Rightarrow> error + string"

text \<open>\<open>fmt.Errorf\<close> with one \<open>%s\<close> filled by an error is \<open>Errorf\<close> of the text before it.\<close>

datatype ctor_error = Plain error | Errorf string error

fun apply_opts :: "Option list \<Rightarrow> Server \<Rightarrow> ctor_error + Server" where
  "apply_opts [] srv = Inr srv"
| "apply_opts (opt # opts) srv =
     (case opt (QueueURL srv) of
        Inl err \<Rightarrow> Inl (Errorf ''Failed setting option: '' err)
      | Inr url \<Rightarrow> apply_opts opts (srv\<lparr>QueueURL := url\<rparr>))"

text \<open>
  \<open>NewServer\<close>; \<open>sess\<close> is the error of \<open>session.NewSession()\<close>. The region, the
  endpoint and the retryer go into the client and leave no trace on the state.
\<close>

definition NewServer ::
  "error option \<Rightarrow> string \<Rightarrow> int \<Rightarrow> int \<Rightarrow> Option list \<Rightarrow> ctor_error + Server" where
  "NewServer sess url cl timeout opts =
     (let cl' = (if cl < 1 then 1 else cl) in
      case sess of
        Some err \<Rightarrow> Inl (Plain err)
      | None \<Rightarrow>
          apply_opts opts
            \<lparr>QueueURL = url,
             maxConcurrentReceives = make_chan (nat cl'),
             retryTimeout = timeout,
             receiverCtx_done = False,
             serverCtx_done = False\<rparr>)"

section \<open>The server: one dispatch\<close>

text \<open>
  \<open>convertToMsgAttrs\<close>. \<open>aset\<close> is \<open>msg.Attributes.Set\<close> of go-msg, which is not part
  of this repository: it is a parameter. Reading \<open>v.StringValue\<close> through a nil \<open>v\<close> and
  reading \<open>*v.StringValue\<close> through a nil string pointer both panic.
\<close>

type_synonym attr_set = "string \<Rightarrow> string \<Rightarrow> Attributes \<Rightarrow> Attributes"

fun convert_loop ::
  "attr_set \<Rightarrow> Attributes \<Rightarrow> (string \<times> MessageAttributeValue option) list
     \<Rightarrow> panic + Attributes" where
  "convert_loop aset attr [] = Inr attr"
| "convert_loop aset attr ((k, v) # rest) =
     (case v of
        None \<Rightarrow> Inl NilPointer
      | Some av \<Rightarrow>
          (case StringValue av of
             None \<Rightarrow> Inl NilPointer
           | Some str \<Rightarrow> convert_loop aset (aset k str attr) rest))"

definition convertToMsgAttrs ::
  "attr_set \<Rightarrow> (string \<times> MessageAttributeValue option) list \<Rightarrow> panic + Attributes" where
  "convertToMsgAttrs aset awsAttrs = convert_loop aset [] awsAttrs"

text \<open>
  The composite literal \<open>&msg.Message{Attributes: ..., Body: ...}\<close> of the goroutine:
  the attributes are converted first, then \<open>*sqsMsg.Body\<close> is read.
\<close>

definition new_Message :: "attr_set \<Rightarrow> sqs_Message \<Rightarrow> panic + msg_Message" where
  "new_Message aset sqsMsg =
     (case convertToMsgAttrs aset (Message_MessageAttributes sqsMsg) of
        Inl p \<Rightarrow> Inl p
      | Inr attrs \<Rightarrow>
          (case Body sqsMsg of
             None \<Rightarrow> Inl NilPointer
           | Some b \<Rightarrow> Inr \<lparr>m_Attributes = attrs, m_Body = b\<rparr>))"

text \<open>The call that follows the return of \<open>r.Receive\<close> with \<open>err\<close>.\<close>

definition call_after_Receive :: "Server \<Rightarrow> sqs_Message \<Rightarrow> error option \<Rightarrow> svc_call" where
  "call_after_Receive s sqsMsg err =
     (case err of
        Some e \<Rightarrow> ChangeMessageVisibility (QueueURL s) (ReceiptHandle sqsMsg) (retryTimeout s)
      | None \<Rightarrow> DeleteMessage (QueueURL s) (ReceiptHandle sqsMsg))"

text \<open>
  The goroutine that \<open>Serve\<close> starts for a message, run from start to end, as the list of
  its effects in order: the call of the receiver, the calls on \<open>Svc\<close>, the lines it logs,
  the receive from \<open>maxConcurrentReceives\<close> of its deferred function, and a panic that
  leaves it. \<open>r\<close> is the receiver, \<open>svc\<close> the answer of \<open>Svc\<close> to a call. A deferred
  function runs when the body returns and also when it panics.
\<close>

datatype effect =
    Receive msg_Message
  | Call svc_call
  | Log string
  | Release
  | Panic panic

definition dispatch ::
  "attr_set \<Rightarrow> Server \<Rightarrow> (msg_Message \<Rightarrow> error option) \<Rightarrow> (svc_call \<Rightarrow> error option)
     \<Rightarrow> sqs_Message \<Rightarrow> effect list" where
  "dispatch aset s r svc sqsMsg =
     (case new_Message aset sqsMsg of
        Inl p \<Rightarrow> [Release, Panic p]
      | Inr m \<Rightarrow>
          (case r m of
             Some err \<Rightarrow>
               [Receive m, Log ''[ERROR] Receiver error'',
                Call (ChangeMessageVisibility (QueueURL s) (ReceiptHandle sqsMsg) (retryTimeout s)),
                Release]
           | None \<Rightarrow>
               (case svc (DeleteMessage (QueueURL s) (ReceiptHandle sqsMsg)) of
                  Some err \<Rightarrow>
                    [Receive m, Call (DeleteMessage (QueueURL s) (ReceiptHandle sqsMsg)),
                     Log ''[ERROR] Delete message'', Release]
                | None \<Rightarrow>
                    [Receive m, Call (DeleteMessage (QueueURL s) (ReceiptHandle sqsMsg)),
                     Release])))"

text \<open>The calls on \<open>Svc\<close> among some effects, and how often the slot was given back.\<close>

fun calls_of :: "effect list \<Rightarrow> svc_call list" where
  "calls_of [] = []"
| "calls_of (Call c # es) = c # calls_of es"
| "calls_of (e # es) = calls_of es"

definition releases :: "effect list \<Rightarrow> nat" where
  "releases es = length (filter (\<lambda>e. e = Release) es)"

fun is_Delete :: "svc_call \<Rightarrow> bool" where
  "is_Delete (DeleteMessage url h) = True"
| "is_Delete c = False"

fun is_ChangeVisibility :: "svc_call \<Rightarrow> bool" where
  "is_ChangeVisibility (ChangeMessageVisibility url h t) = True"
| "is_ChangeVisibility c = False"

text \<open>
  The precondition of a dispatch that does not panic: the body is there, and every
  attribute is there and has a string value.
\<close>

definition well_formed :: "sqs_Message \<Rightarrow> bool" where
  "well_formed sqsMsg \<longleftrightarrow>
     Body sqsMsg \<noteq> None \<and>
     list_all (\<lambda>(k, v). case v of None \<Rightarrow> False | Some av \<Rightarrow> StringValue av \<noteq> None)
       (Message_MessageAttributes sqsMsg)"

section \<open>The server: Serve, its goroutines and Shutdown\<close>

text \<open>
  \<open>Serve\<close>, the goroutines it starts and \<open>Shutdown\<close> run side by side. They are one
  transition system: each thread has a program counter, and an event says which thread
  runs next or which call returns with which answer. A thread that cannot run (a send on
  the full channel, a call that has not returned) leaves the state as it is.
\<close>

text \<open>
  A goroutine started for a message: before its body, inside \<open>r.Receive\<close>, inside one
  of the two calls on \<open>Svc\<close>, or out of its body with the deferred function still to run
  (\<open>True\<close> when a panic took it out).
\<close>

datatype task_pc =
    AtStart
  | InReceive msg_Message
  | InChangeVisibility
  | InDelete
  | AtDefer bool

record task =
  t_sqsMsg :: sqs_Message
  pc :: task_pc

text \<open>
  \<open>Serve\<close>: at the \<open>select\<close> of its loop, inside \<open>ReceiveMessage\<close>, in the \<open>range\<close>
  loop with the messages still to go (a nil pointer is \<open>None\<close>), returned or panicked.
\<close>

datatype serve_pc =
    AtSelect
  | InReceiveMessage
  | AtRange "sqs_Message option list"
  | ServeReturned error
  | ServePanicked panic

text \<open>A context passed to \<open>Shutdown\<close>, with the error \<open>Err()\<close> gives once it is done.\<close>

record Context =
  ctx_Err :: error

text \<open>
  One call of \<open>Shutdown\<close>: in its loop with the context it was given, returned or
  panicked. \<open>Shutdown\<close> may be called any number of times, also while an earlier call
  is still in its loop; the system keeps the calls in the order they were made.
\<close>

datatype shutdown_pc =
    InShutdown Context
  | ShutdownReturned error
  | ShutdownPanicked panic

record system =
  srv :: Server
  serve :: serve_pc
  shutdowns :: "shutdown_pc list"
  tasks :: "task list"
  calls :: "svc_call list"
  crashed :: bool

datatype event =
    ServeRuns
  | ReceiveMessageReturns "error + sqs_Message option list"
  | TaskRuns nat
  | ReceiveReturns nat "error option"
  | SvcReturns nat "error option"
  | ShutdownCalled "Context option"
  | CtxDone nat
  | Tick nat

text \<open>\<open>Serve\<close> has been called on a server.\<close>

definition start :: "Server \<Rightarrow> system" where
  "start s0 =
     \<lparr>srv = s0, serve = AtSelect, shutdowns = [], tasks = [], calls = [],
      crashed = False\<rparr>"

text \<open>
  One step of \<open>Serve\<close>. At the \<open>select\<close>: when the server context is done it closes the
  channel and returns \<open>ErrServerClosed\<close>, otherwise it calls \<open>ReceiveMessage\<close>. In the
  \<open>range\<close> loop: it reads \<open>m.MessageId\<close>, sends on the channel and starts the goroutine.
\<close>

fun serve_runs :: "serve_pc \<Rightarrow> system \<Rightarrow> system" where
  "serve_runs AtSelect s =
     (if serverCtx_done (srv s) then
        (case chan_close (maxConcurrentReceives (srv s)) of
           Proceeds c \<Rightarrow>
             s\<lparr>srv := (srv s)\<lparr>maxConcurrentReceives := c\<rparr>,
               serve := ServeReturned ErrServerClosed\<rparr>
         | Panics \<Rightarrow> s\<lparr>serve := ServePanicked (PanicMsg ''close of closed channel'')\<rparr>
         | Blocks \<Rightarrow> s)
      else
        s\<lparr>calls := calls s @ [ReceiveMessage 10 20 (QueueURL (srv s)) [''All'']],
          serve := InReceiveMessage\<rparr>)"
| "serve_runs (AtRange []) s = s\<lparr>serve := AtSelect\<rparr>"
| "serve_runs (AtRange (None # rest)) s = s\<lparr>serve := ServePanicked NilPointer\<rparr>"
| "serve_runs (AtRange (Some m # rest)) s =
     (case chan_send (maxConcurrentReceives (srv s)) of
        Proceeds c \<Rightarrow>
          s\<lparr>srv := (srv s)\<lparr>maxConcurrentReceives := c\<rparr>,
            tasks := tasks s @ [\<lparr>t_sqsMsg = m, pc = AtStart\<rparr>],
            serve := AtRange rest\<rparr>
      | Panics \<Rightarrow> s\<lparr>serve := ServePanicked (PanicMsg ''send on closed channel'')\<rparr>
      | Blocks \<Rightarrow> s)"
| "serve_runs InReceiveMessage s = s"
| "serve_runs (ServeReturned err) s = s"
| "serve_runs (ServePanicked p) s = s"

text \<open>\<open>ReceiveMessage\<close> returns: an error is returned by \<open>Serve\<close> as it is.\<close>

definition receive_message_returns ::
  "error + sqs_Message option list \<Rightarrow> system \<Rightarrow> system" where
  "receive_message_returns res s =
     (case serve s of
        InReceiveMessage \<Rightarrow>
          (case res of
             Inl err \<Rightarrow> s\<lparr>serve := ServeReturned err\<rparr>
           | Inr msgs \<Rightarrow> s\<lparr>serve := AtRange msgs\<rparr>)
      | _ \<Rightarrow> s)"

text \<open>
  Goroutine \<open>i\<close> runs. From its start it builds the message and calls the receiver; a
  nil pointer takes it out of the body by a panic. Out of the body, its deferred function
  receives from the channel and the goroutine ends; if a panic took it out, the panic
  then ends the process.
\<close>

definition task_runs :: "attr_set \<Rightarrow> nat \<Rightarrow> system \<Rightarrow> system" where
  "task_runs aset i s =
     (if i < length (tasks s) then
        (let t = tasks s ! i in
         case pc t of
           AtStart \<Rightarrow>
             (case new_Message aset (t_sqsMsg t) of
                Inl p \<Rightarrow> s\<lparr>tasks := (tasks s)[i := t\<lparr>pc := AtDefer True\<rparr>]\<rparr>
              | Inr m \<Rightarrow> s\<lparr>tasks := (tasks s)[i := t\<lparr>pc := InReceive m\<rparr>]\<rparr>)
         | AtDefer panicking \<Rightarrow>
             (case chan_recv (maxConcurrentReceives (srv s)) of
                Proceeds c \<Rightarrow>
                  s\<lparr>srv := (srv s)\<lparr>maxConcurrentReceives := c\<rparr>,
                    tasks := take i (tasks s) @ drop (Suc i) (tasks s),
                    crashed := panicking\<rparr>
              | Panics \<Rightarrow> s
              | Blocks \<Rightarrow> s)
         | _ \<Rightarrow> s)
      else s)"

text \<open>
  The receiver of goroutine \<open>i\<close> returns \<open>err\<close>: the goroutine calls
  \<open>ChangeMessageVisibility\<close> on an error and \<open>DeleteMessage\<close> otherwise.
\<close>

definition receive_returns :: "nat \<Rightarrow> error option \<Rightarrow> system \<Rightarrow> system" where
  "receive_returns i err s =
     (if i < length (tasks s) then
        (let t = tasks s ! i in
         case pc t of
           InReceive m \<Rightarrow>
             s\<lparr>calls := calls s @ [call_after_Receive (srv s) (t_sqsMsg t) err],
               tasks := (tasks s)
                 [i := t\<lparr>pc := (case err of Some e \<Rightarrow> InChangeVisibility | None \<Rightarrow> InDelete)\<rparr>]\<rparr>
         | _ \<Rightarrow> s)
      else s)"

text \<open>
  The call on \<open>Svc\<close> of goroutine \<open>i\<close> returns: its error is dropped or logged, and the
  body is left.
\<close>

definition svc_returns :: "nat \<Rightarrow> error option \<Rightarrow> system \<Rightarrow> system" where
  "svc_returns i err s =
     (if i < length (tasks s) then
        (let t = tasks s ! i in
         case pc t of
           InChangeVisibility \<Rightarrow> s\<lparr>tasks := (tasks s)[i := t\<lparr>pc := AtDefer False\<rparr>]\<rparr>
         | InDelete \<Rightarrow> s\<lparr>tasks := (tasks s)[i := t\<lparr>pc := AtDefer False\<rparr>]\<rparr>
         | _ \<Rightarrow> s)
      else s)"

text \<open>
  \<open>Shutdown(ctx)\<close> is called, for the first time or again: a nil context panics before
  anything else is done, otherwise the server context is canceled and the loop of this
  call is entered.
\<close>

definition shutdown_called :: "Context option \<Rightarrow> system \<Rightarrow> system" where
  "shutdown_called ctx s =
     (case ctx of
        None \<Rightarrow> s\<lparr>shutdowns := shutdowns s @ [ShutdownPanicked (PanicMsg ''context not set'')]\<rparr>
      | Some c \<Rightarrow>
          s\<lparr>srv := (srv s)\<lparr>serverCtx_done := True\<rparr>,
            shutdowns := shutdowns s @ [InShutdown c]\<rparr>)"

text \<open>The \<open>select\<close> of call \<open>i\<close> of \<open>Shutdown\<close> takes \<open>ctx.Done()\<close>.\<close>

definition ctx_done :: "nat \<Rightarrow> system \<Rightarrow> system" where
  "ctx_done i s =
     (if i < length (shutdowns s) then
        (case shutdowns s ! i of
           InShutdown c \<Rightarrow>
             s\<lparr>srv := (srv s)\<lparr>receiverCtx_done := True\<rparr>,
               shutdowns := (shutdowns s)[i := ShutdownReturned (ctx_Err c)]\<rparr>
         | _ \<Rightarrow> s)
      else s)"

text \<open>The \<open>select\<close> of call \<open>i\<close> of \<open>Shutdown\<close> takes a tick of its ticker.\<close>

definition tick :: "nat \<Rightarrow> system \<Rightarrow> system" where
  "tick i s =
     (if i < length (shutdowns s) then
        (case shutdowns s ! i of
           InShutdown c \<Rightarrow>
             if chan_len (maxConcurrentReceives (srv s)) = 0
             then s\<lparr>shutdowns := (shutdowns s)[i := ShutdownReturned ErrServerClosed]\<rparr>
             else s
         | _ \<Rightarrow> s)
      else s)"

fun step :: "attr_set \<Rightarrow> event \<Rightarrow> system \<Rightarrow> system" where
  "step aset ev s =
     (if crashed s then s
      else case ev of
        ServeRuns \<Rightarrow> serve_runs (serve s) s
      | ReceiveMessageReturns res \<Rightarrow> receive_message_returns res s
      | TaskRuns i \<Rightarrow> task_runs aset i s
      | ReceiveReturns i err \<Rightarrow> receive_returns i err s
      | SvcReturns i err \<Rightarrow> svc_returns i err s
      | ShutdownCalled ctx \<Rightarrow> shutdown_called ctx s
      | CtxDone i \<Rightarrow> ctx_done i s
      | Tick i \<Rightarrow> tick i s)"

fun run :: "attr_set \<Rightarrow> event list \<Rightarrow> system \<Rightarrow> system" where
  "run aset [] s = s"
| "run aset (ev # evs) s = run aset evs (step aset ev s)"

text \<open>The goroutines that are inside the receiver.\<close>

fun in_Receive :: "task \<Rightarrow> bool" where
  "in_Receive t = (case pc t of InReceive m \<Rightarrow> True | _ \<Rightarrow> False)"

definition executing :: "system \<Rightarrow> nat" where
  "executing s = length (filter in_Receive (tasks s))"

fun is_ReceiveMessage :: "svc_call \<Rightarrow> bool" where
  "is_ReceiveMessage (ReceiveMessage n w url names) = True"
| "is_ReceiveMessage c = False"

text \<open>
  The channel of a system, and the accounting that ties it to the goroutines: the
  channel holds one value for each goroutine that is alive, and never more than its
  capacity.
\<close>

definition gate :: "system \<Rightarrow> chan" where
  "gate s = maxConcurrentReceives (srv s)"

definition gate_inv :: "system \<Rightarrow> bool" where
  "gate_inv s \<longleftrightarrow> chan_len (gate s) = length (tasks s) \<and> chan_len (gate s) \<le> chan_cap (gate s)"

text \<open>
  One more fact that holds in every state a server reaches: the channel is closed only
  once \<open>Serve\<close> has returned \<open>ErrServerClosed\<close>.
\<close>

definition open_inv :: "system \<Rightarrow> bool" where
  "open_inv s \<longleftrightarrow> (chan_closed (gate s) \<longrightarrow> serve s = ServeReturned ErrServerClosed)"

text \<open>
  The events other than the select of a call of \<open>Shutdown\<close> different from call \<open>i\<close>
  taking its context's \<open>Done\<close>.
\<close>

fun no_other_CtxDone :: "nat \<Rightarrow> event \<Rightarrow> bool" where
  "no_other_CtxDone i (CtxDone j) = (j = i)"
| "no_other_CtxDone i ev = True"

text \<open>
  The answers of \<open>ReceiveMessage\<close> in which every message is there, has a body and has a
  string value for every attribute; and the states in which no goroutine is on its way
  out by a panic, every goroutine works on such a message, and \<open>Serve\<close> has only such
  messages left.
\<close>

fun ev_ok :: "event \<Rightarrow> bool" where
  "ev_ok (ReceiveMessageReturns (Inr msgs)) =
     list_all (\<lambda>m. case m of None \<Rightarrow> False | Some x \<Rightarrow> well_formed x) msgs"
| "ev_ok ev = True"

fun serve_ok :: "serve_pc \<Rightarrow> bool" where
  "serve_ok (AtRange msgs) =
     list_all (\<lambda>m. case m of None \<Rightarrow> False | Some x \<Rightarrow> well_formed x) msgs"
| "serve_ok (ServePanicked p) = (p \<noteq> NilPointer)"
| "serve_ok pc0 = True"

definition healthy :: "system \<Rightarrow> bool" where
  "healthy s \<longleftrightarrow>
     \<not> crashed s \<and> serve_ok (serve s) \<and>
     list_all (\<lambda>t. well_formed (t_sqsMsg t) \<and> pc t \<noteq> AtDefer True) (tasks s)"

section \<open>Concrete inputs\<close>

text \<open>
  Inputs on which the theorems below are evaluated: a \<open>Set\<close> that stores the value as a
  one-element sequence, a message, the server that \<open>NewServer\<close> builds for a
  concurrency of 1 and a retry timeout of 30, a context with a deadline, and a run in
  which one message is received, Shutdown is called, and the message is handled and
  deleted.
\<close>

definition set_single :: attr_set where
  "set_single k v a = (k, [v]) # a"

definition example_msg :: sqs_Message where
  "example_msg =
     \<lparr>MessageId = Some ''id-1'', Body = Some ''hello'', ReceiptHandle = Some ''H'',
      Message_MessageAttributes =
        [(''k'', Some \<lparr>DataType = Some ''String'', StringValue = Some ''v''\<rparr>)]\<rparr>"

definition example_server :: Server where
  "example_server =
     \<lparr>QueueURL = ''q'', maxConcurrentReceives = make_chan 1, retryTimeout = 30,
      receiverCtx_done = False, serverCtx_done = False\<rparr>"

definition example_ctx :: Context where
  "example_ctx = \<lparr>ctx_Err = DeadlineExceeded\<rparr>"

definition drained_trace :: "event list" where
  "drained_trace =
     [ServeRuns, ReceiveMessageReturns (Inr [Some example_msg]), ServeRuns,
      ShutdownCalled (Some example_ctx),
      TaskRuns 0, ReceiveReturns 0 None, SvcReturns 0 None, TaskRuns 0]"

text \<open>
  A receiver that accepts and one that fails, a service that answers without error and
  one that fails, a run in which two messages arrive at a server of capacity 1, the run
  up to the call of Shutdown, a message without body and the run in which it ends the
  process, and the runs up to the start of a goroutine and up to the end of its body.
\<close>

definition accepting :: "msg_Message \<Rightarrow> error option" where
  "accepting m = None"

definition rejecting :: "msg_Message \<Rightarrow> error option" where
  "rejecting m = Some (Err ''failed'')"

definition svc_ok :: "svc_call \<Rightarrow> error option" where
  "svc_ok c = None"

definition svc_failing :: "svc_call \<Rightarrow> error option" where
  "svc_failing c = Some (Err ''unavailable'')"

definition busy_trace :: "event list" where
  "busy_trace =
     [ServeRuns, ReceiveMessageReturns (Inr [Some example_msg, Some example_msg]), ServeRuns,
      ServeRuns, TaskRuns 0]"

definition waiting_trace :: "event list" where
  "waiting_trace =
     [ServeRuns, ReceiveMessageReturns (Inr [Some example_msg]), ServeRuns,
      ShutdownCalled (Some example_ctx)]"

definition bodyless_msg :: sqs_Message where
  "bodyless_msg = example_msg\<lparr>Body := None\<rparr>"

definition crash_trace :: "event list" where
  "crash_trace =
     [ServeRuns, ReceiveMessageReturns (Inr [Some bodyless_msg]), ServeRuns, TaskRuns 0,
      TaskRuns 0]"

definition spawned_trace :: "event list" where
  "spawned_trace =
     [ServeRuns, ReceiveMessageReturns (Inr [Some example_msg]), ServeRuns]"

definition leaving_trace :: "event list" where
  "leaving_trace =
     [ServeRuns, ReceiveMessageReturns (Inr [Some example_msg]), ServeRuns, TaskRuns 0,
      ReceiveReturns 0 None, SvcReturns 0 (Some (Err ''unavailable''))]"

definition spawned_bodyless_trace :: "event list" where
  "spawned_bodyless_trace =
     [ServeRuns, ReceiveMessageReturns (Inr [Some bodyless_msg]), ServeRuns]"

section \<open>Properties of the message writer\<close>

lemma writer_run_append:
  "writer_run send (xs @ ys) w =
     (case writer_run send xs w of (rs, sent, w') \<Rightarrow>
        (case writer_run send ys w' of (rs', sent', w'') \<Rightarrow> (rs @ rs', sent @ sent', w'')))"
  by (induction xs arbitrary: w) (auto split: prod.splits)

lemma writer_step_closed:
  "closed_w w \<Longrightarrow> \<exists>w'. writer_step send x w = (closed_result x, [], w') \<and> closed_w w'"
  by (cases x) (auto simp: Write_def Close_def SetDelay_def)

lemma writer_run_closed:
  "closed_w w \<Longrightarrow> \<exists>w'. writer_run send xs w = (map closed_result xs, [], w') \<and> closed_w w'"
proof (induction xs arbitrary: w)
  case Nil
  then show ?case by simp
next
  case (Cons x xs)
  from writer_step_closed [OF Cons.prems, of send x]
  obtain w1 where s: "writer_step send x w = (closed_result x, [], w1)" and c: "closed_w w1"
    by blast
  from Cons.IH [OF c] obtain w2
    where r: "writer_run send xs w1 = (map closed_result xs, [], w2)" and c2: "closed_w w2"
    by blast
  show ?case using s r c2 by simp
qed

lemma writer_step_open:
  "\<not> closed_w w \<Longrightarrow> x \<noteq> OpClose \<Longrightarrow>
     \<exists>r w'. writer_step send x w = (r, [], w') \<and> \<not> closed_w w'"
  by (cases x) (auto simp: Write_def SetDelay_def)

lemma writer_run_open:
  "\<not> closed_w w \<Longrightarrow> OpClose \<notin> set xs \<Longrightarrow>
     \<exists>rs w'. writer_run send xs w = (rs, [], w') \<and> \<not> closed_w w' \<and> length rs = length xs"
proof (induction xs arbitrary: w)
  case Nil
  then show ?case by simp
next
  case (Cons x xs)
  from Cons.prems have "x \<noteq> OpClose" by auto
  from writer_step_open [OF Cons.prems(1) this, of send]
  obtain r w1 where s: "writer_step send x w = (r, [], w1)" and c: "\<not> closed_w w1"
    by blast
  from Cons.prems have "OpClose \<notin> set xs" by auto
  from Cons.IH [OF c this] obtain rs w2
    where r: "writer_run send xs w1 = (rs, [], w2)" and c2: "\<not> closed_w w2"
      and l: "length rs = length xs"
    by blast
  show ?case using s r c2 l by simp
qed

text \<open>
  Claim C5. Take a writer that is still open and any sequence of operations whose first
  \<open>Close\<close> comes after the operations \<open>pre\<close> and before the operations \<open>post\<close>. Nothing
  is sent during \<open>pre\<close>. The first \<open>Close\<close> sends exactly one request and returns the
  answer of that send, whatever it is. Every \<open>Write\<close> and \<open>Close\<close> of \<open>post\<close> returns
  \<open>ErrClosedMessageWriter\<close> and sends nothing, so the whole run sends exactly one
  request, and the writer ends closed, also when the send failed.
\<close>

theorem first_close_sends_once:
  assumes "\<not> closed_w w" and "OpClose \<notin> set pre"
  shows "\<exists>rs w1 w2.
           writer_run send pre w = (rs, [], w1) \<and> \<not> closed_w w1 \<and> length rs = length pre \<and>
           writer_run send (pre @ OpClose # post) w =
             (rs @ CloseResult (send (params_of (w1\<lparr>closed_w := True\<rparr>)))
                 # map closed_result post,
              [params_of (w1\<lparr>closed_w := True\<rparr>)], w2) \<and>
           closed_w w2"
proof -
  from writer_run_open [OF assms, of send] obtain rs w1
    where a: "writer_run send pre w = (rs, [], w1)" and b: "\<not> closed_w w1"
      and l: "length rs = length pre"
    by blast
  let ?w = "w1\<lparr>closed_w := True\<rparr>"
  have "closed_w ?w" by simp
  from writer_run_closed [OF this, of send post] obtain w2
    where c: "writer_run send post ?w = (map closed_result post, [], w2)" and d: "closed_w w2"
    by blast
  have "writer_run send (OpClose # post) w1 =
          (CloseResult (send (params_of ?w)) # map closed_result post, [params_of ?w], w2)"
    using b c by (simp add: Close_def Let_def)
  then show ?thesis using a b l d by (simp add: writer_run_append)
qed

theorem first_close_sends_once_witness:
  "\<not> closed_w (NewWriter \<lparr>topic_QueueURL = ''q''\<rparr>) \<and>
   OpClose \<notin> set [OpWrite ''hello''] \<and>
   writer_run (\<lambda>p. Some (Err ''boom'')) ([OpWrite ''hello''] @ OpClose # [OpClose, OpWrite ''x''])
       (NewWriter \<lparr>topic_QueueURL = ''q''\<rparr>) =
     ([WriteResult 5 None, CloseResult (Some (Err ''boom'')),
       CloseResult (Some ErrClosedMessageWriter), WriteResult 0 (Some ErrClosedMessageWriter)],
      [\<lparr>DelaySeconds = 0, MessageBody = ''hello'', QueueUrl = ''q'', MessageAttributes = None\<rparr>],
      \<lparr>attributes = [], buf = ''hello'', closed_w = True, delaySeconds = 0, queueURL = ''q''\<rparr>)"
proof -
  let ?w = "NewWriter \<lparr>topic_QueueURL = ''q''\<rparr>"
  have h1: "\<not> closed_w ?w" by (simp add: NewWriter_def)
  have h2: "OpClose \<notin> set [OpWrite ''hello'']" by simp
  have run: "writer_run (\<lambda>p. Some (Err ''boom''))
        ([OpWrite ''hello''] @ OpClose # [OpClose, OpWrite ''x'']) ?w =
     ([WriteResult 5 None, CloseResult (Some (Err ''boom'')),
       CloseResult (Some ErrClosedMessageWriter), WriteResult 0 (Some ErrClosedMessageWriter)],
      [\<lparr>DelaySeconds = 0, MessageBody = ''hello'', QueueUrl = ''q'', MessageAttributes = None\<rparr>],
      \<lparr>attributes = [], buf = ''hello'', closed_w = True, delaySeconds = 0, queueURL = ''q''\<rparr>)"
    by (simp add: params_of_def NewWriter_def Write_def Close_def Let_def)
  from first_close_sends_once [OF h1 h2, of "\<lambda>p. Some (Err ''boom'')" "[OpClose, OpWrite ''x'']"]
    h1 h2 run
  show ?thesis by blast
qed

lemma Seconds_exact: "Seconds d = real_of_int d / 1000000000"
proof -
  have "d sdiv Second * Second + d smod Second = d"
    by (rule sdiv_mult_smod_eq)
  then have "real_of_int d =
      real_of_int (d sdiv Second) * 1000000000 + real_of_int (d smod Second)"
    by (metis Second_def of_int_add of_int_mult of_int_numeral)
  then show ?thesis by (simp add: Seconds_def field_simps)
qed

lemma clamp_below: "x < 0 \<Longrightarrow> int64_of_float (math_Min (math_Max x 0) 900) = 0"
  by (simp add: int64_of_float_def math_Min_def math_Max_def)

lemma clamp_above: "900 < x \<Longrightarrow> int64_of_float (math_Min (math_Max x 0) 900) = 900"
  by (simp add: int64_of_float_def math_Min_def math_Max_def)

lemma clamp_inside:
  "0 \<le> x \<Longrightarrow> x \<le> 900 \<Longrightarrow> int64_of_float (math_Min (math_Max x 0) 900) = \<lfloor>x\<rfloor>"
  by (simp add: int64_of_float_def math_Min_def math_Max_def)

lemma clamp_range:
  "0 \<le> int64_of_float (math_Min (math_Max x 0) 900) \<and>
   int64_of_float (math_Min (math_Max x 0) 900) \<le> 900"
  by (auto simp: int64_of_float_def math_Min_def math_Max_def le_floor_iff floor_le_iff)

lemma map_of_buildSQSAttributes:
  "map_of (buildSQSAttributes a) k =
     map_option (\<lambda>v. \<lparr>DataType = Some ''String'', StringValue = Some (Join v '','')\<rparr>)
       (map_of a k)"
  by (induction a) (auto simp: buildSQSAttributes_def)

lemma keys_buildSQSAttributes: "map fst (buildSQSAttributes a) = map fst a"
  by (induction a) (auto simp: buildSQSAttributes_def)

text \<open>
  Claim C8. For every duration, the delay that \<open>SetDelay\<close> stores lies between 0 and 900:
  it is 0 when the duration's seconds are below 0, 900 when they are above 900, and the
  whole seconds of the duration in between. \<open>Close\<close> on the open writer publishes a
  request whose \<open>DelaySeconds\<close> is the stored value.
\<close>

theorem SetDelay_clamps:
  "0 \<le> delaySeconds (SetDelay d w) \<and> delaySeconds (SetDelay d w) \<le> 900 \<and>
   (Seconds d < 0 \<longrightarrow> delaySeconds (SetDelay d w) = 0) \<and>
   (900 < Seconds d \<longrightarrow> delaySeconds (SetDelay d w) = 900) \<and>
   (0 \<le> Seconds d \<and> Seconds d \<le> 900 \<longrightarrow> delaySeconds (SetDelay d w) = \<lfloor>Seconds d\<rfloor>) \<and>
   (\<not> closed_w w \<longrightarrow>
      (\<exists>p w'. Close send (SetDelay d w) = (send p, [p], w') \<and>
              DelaySeconds p = delaySeconds (SetDelay d w)))"
proof -
  have "\<not> closed_w w \<Longrightarrow>
      \<exists>p w'. Close send (SetDelay d w) = (send p, [p], w') \<and>
              DelaySeconds p = delaySeconds (SetDelay d w)"
    by (simp add: Close_def Let_def params_of_def SetDelay_def)
  then show ?thesis
    using clamp_range [of "Seconds d"] clamp_below [of "Seconds d"] clamp_above [of "Seconds d"]
      clamp_inside [of "Seconds d"]
    by (simp add: SetDelay_def)
qed

lemma Seconds_of_nanoseconds:
  "(Seconds d < 0 \<longleftrightarrow> d < 0) \<and> (900 < Seconds d \<longleftrightarrow> 900 * Second < d)"
  by (simp add: Seconds_exact Second_def field_simps) 

theorem SetDelay_clamps_witness:
  "900 < Seconds (1000 * Second) \<and>
   delaySeconds (SetDelay (1000 * Second) (NewWriter \<lparr>topic_QueueURL = ''q''\<rparr>)) = 900 \<and>
   Seconds (- 5 * Second) < 0 \<and>
   delaySeconds (SetDelay (- 5 * Second) (NewWriter \<lparr>topic_QueueURL = ''q''\<rparr>)) = 0 \<and>
   0 \<le> Seconds 1500000000 \<and> Seconds 1500000000 \<le> 900 \<and>
   delaySeconds (SetDelay 1500000000 (NewWriter \<lparr>topic_QueueURL = ''q''\<rparr>)) = 1 \<and>
   \<not> closed_w (NewWriter \<lparr>topic_QueueURL = ''q''\<rparr>) \<and>
   (\<exists>p w'. Close (\<lambda>p. None) (SetDelay (1000 * Second) (NewWriter \<lparr>topic_QueueURL = ''q''\<rparr>)) =
             (None, [p], w') \<and> DelaySeconds p = 900)"
proof -
  let ?w = "NewWriter \<lparr>topic_QueueURL = ''q''\<rparr>"
  have a: "900 < Seconds (1000 * Second)" by (simp add: Seconds_exact Second_def)
  have b: "Seconds (- 5 * Second) < 0" by (simp add: Seconds_exact Second_def)
  have c: "0 \<le> Seconds 1500000000 \<and> Seconds 1500000000 \<le> 900 \<and> \<lfloor>Seconds 1500000000\<rfloor> = 1"
    by (simp add: Seconds_exact floor_eq_iff)
  have o: "\<not> closed_w ?w" by (simp add: NewWriter_def)
  from SetDelay_clamps [of "1000 * Second" ?w "\<lambda>p. None"] a o
  have 1: "delaySeconds (SetDelay (1000 * Second) ?w) = 900 \<and>
     (\<exists>p w'. Close (\<lambda>p. None) (SetDelay (1000 * Second) ?w) = (None, [p], w') \<and> DelaySeconds p = 900)"
    by auto
  from SetDelay_clamps [of "- 5 * Second" ?w "\<lambda>p. None"] b
  have 2: "delaySeconds (SetDelay (- 5 * Second) ?w) = 0" by blast
  from SetDelay_clamps [of 1500000000 ?w "\<lambda>p. None"] c
  have 3: "delaySeconds (SetDelay 1500000000 ?w) = 1" by simp
  from a b c o 1 2 3 show ?thesis by blast
qed

lemma Join_concat:
  "Join vs sep = (case vs of [] \<Rightarrow> [] | v # ws \<Rightarrow> v @ concat (map ((@) sep) ws))"
  by (induction vs sep rule: Join.induct) simp_all

text \<open>
  Claim C9. When an open writer whose attributes hold the values \<open>vs\<close> under the key
  \<open>k\<close> is closed, the published request carries message attributes in which \<open>k\<close> is
  one attribute with data type \<open>String\<close>. Its string value is the empty string when
  there are no values, and otherwise the first value followed by a comma and the next
  value for each further value, in their order. The request has the keys of the writer's
  attributes, each once.
\<close>

theorem Close_serializes_attributes:
  assumes "\<not> closed_w w" and "map_of (attributes w) k = Some vs"
  shows "\<exists>p atts w'.
           Close send w = (send p, [p], w') \<and> MessageAttributes p = Some atts \<and>
           map_of atts k =
             Some \<lparr>DataType = Some ''String'',
                   StringValue =
                     Some (case vs of [] \<Rightarrow> [] | v # ws \<Rightarrow> v @ concat (map ((@) '','') ws))\<rparr> \<and>
           map fst atts = map fst (attributes w)"
proof -
  from assms(2) have ne: "attributes w \<noteq> []" by auto
  let ?p = "params_of (w\<lparr>closed_w := True\<rparr>)"
  have 1: "Close send w = (send ?p, [?p], w\<lparr>closed_w := True\<rparr>)"
    using assms(1) by (simp add: Close_def Let_def)
  have 2: "MessageAttributes ?p = Some (buildSQSAttributes (attributes w))"
    using ne by (simp add: params_of_def)
  have 3: "map_of (buildSQSAttributes (attributes w)) k =
      Some \<lparr>DataType = Some ''String'',
            StringValue =
              Some (case vs of [] \<Rightarrow> [] | v # ws \<Rightarrow> v @ concat (map ((@) '','') ws))\<rparr>"
    using assms(2) by (simp add: map_of_buildSQSAttributes Join_concat [of vs "'',''"])
  show ?thesis
    using 1 2 3 by (simp add: keys_buildSQSAttributes)
qed

theorem Close_serializes_attributes_witness:
  "\<not> closed_w (NewWriter \<lparr>topic_QueueURL = ''q''\<rparr>\<lparr>attributes := [(''k'', [''a'', ''b''])]\<rparr>) \<and>
   map_of (attributes (NewWriter \<lparr>topic_QueueURL = ''q''\<rparr>\<lparr>attributes := [(''k'', [''a'', ''b''])]\<rparr>)) ''k''
     = Some [''a'', ''b''] \<and>
   (\<exists>p atts w'.
      Close (\<lambda>p. None) (NewWriter \<lparr>topic_QueueURL = ''q''\<rparr>\<lparr>attributes := [(''k'', [''a'', ''b''])]\<rparr>)
        = (None, [p], w') \<and>
      MessageAttributes p = Some atts \<and>
      map_of atts ''k'' = Some \<lparr>DataType = Some ''String'', StringValue = Some ''a,b''\<rparr>)"
proof -
  let ?w = "NewWriter \<lparr>topic_QueueURL = ''q''\<rparr>\<lparr>attributes := [(''k'', [''a'', ''b''])]\<rparr>"
  have h1: "\<not> closed_w ?w" by (simp add: NewWriter_def)
  have h2: "map_of (attributes ?w) ''k'' = Some [''a'', ''b'']" by (simp add: NewWriter_def)
  from Close_serializes_attributes [OF h1 h2, of "\<lambda>p. None"] h1 h2
  show ?thesis by auto
qed

section \<open>Properties of the retryer\<close>

text \<open>
  Claim C7. For a request that carries a response: with status 403, \<open>ShouldRetry\<close>
  returns true and \<open>RetryRules\<close> returns the configured delay; with any other status
  both return what the wrapped retryer returns for the same request.
\<close>

theorem DefaultRetryer_403:
  assumes "HTTPResponse req = Some resp"
  shows "(StatusCode resp = 403 \<longrightarrow>
            DefaultRetryer_ShouldRetry r req = Inr True \<and>
            DefaultRetryer_RetryRules r req = Inr (delay r)) \<and>
         (StatusCode resp \<noteq> 403 \<longrightarrow>
            DefaultRetryer_ShouldRetry r req = Inr (ShouldRetry (Retryer r) req) \<and>
            DefaultRetryer_RetryRules r req = Inr (RetryRules (Retryer r) req))"
  using assms by (simp add: DefaultRetryer_ShouldRetry_def DefaultRetryer_RetryRules_def)

theorem DefaultRetryer_403_witness:
  "HTTPResponse \<lparr>HTTPResponse = Some \<lparr>StatusCode = 403\<rparr>\<rparr> = Some \<lparr>StatusCode = 403\<rparr> \<and>
   StatusCode \<lparr>StatusCode = 403\<rparr> = 403 \<and>
   DefaultRetryer_ShouldRetry
     \<lparr>Retryer = \<lparr>RetryRules = (\<lambda>q. 30), ShouldRetry = (\<lambda>q. False), MaxRetries = 7\<rparr>,
      delay = 2 * Second\<rparr>
     \<lparr>HTTPResponse = Some \<lparr>StatusCode = 403\<rparr>\<rparr> = Inr True \<and>
   DefaultRetryer_RetryRules
     \<lparr>Retryer = \<lparr>RetryRules = (\<lambda>q. 30), ShouldRetry = (\<lambda>q. False), MaxRetries = 7\<rparr>,
      delay = 2 * Second\<rparr>
     \<lparr>HTTPResponse = Some \<lparr>StatusCode = 403\<rparr>\<rparr> = Inr 2000000000 \<and>
   HTTPResponse \<lparr>HTTPResponse = Some \<lparr>StatusCode = 500\<rparr>\<rparr> = Some \<lparr>StatusCode = 500\<rparr> \<and>
   StatusCode \<lparr>StatusCode = 500\<rparr> \<noteq> 403 \<and>
   DefaultRetryer_ShouldRetry
     \<lparr>Retryer = \<lparr>RetryRules = (\<lambda>q. 30), ShouldRetry = (\<lambda>q. False), MaxRetries = 7\<rparr>,
      delay = 2 * Second\<rparr>
     \<lparr>HTTPResponse = Some \<lparr>StatusCode = 500\<rparr>\<rparr> = Inr False \<and>
   DefaultRetryer_RetryRules
     \<lparr>Retryer = \<lparr>RetryRules = (\<lambda>q. 30), ShouldRetry = (\<lambda>q. False), MaxRetries = 7\<rparr>,
      delay = 2 * Second\<rparr>
     \<lparr>HTTPResponse = Some \<lparr>StatusCode = 500\<rparr>\<rparr> = Inr 30"
proof -
  let ?r = "\<lparr>Retryer = \<lparr>RetryRules = (\<lambda>q. 30), ShouldRetry = (\<lambda>q. False), MaxRetries = 7\<rparr>,
      delay = 2 * Second\<rparr>"
  have a: "HTTPResponse \<lparr>HTTPResponse = Some \<lparr>StatusCode = 403\<rparr>\<rparr> = Some \<lparr>StatusCode = 403\<rparr>"
    by simp
  have b: "HTTPResponse \<lparr>HTTPResponse = Some \<lparr>StatusCode = 500\<rparr>\<rparr> = Some \<lparr>StatusCode = 500\<rparr>"
    by simp
  from DefaultRetryer_403 [OF a, of ?r] DefaultRetryer_403 [OF b, of ?r]
  show ?thesis by (simp add: Second_def)
qed


section \<open>Properties of one dispatch\<close>

lemma convert_loop_ok:
  "list_all (\<lambda>(k, v). case v of None \<Rightarrow> False | Some av \<Rightarrow> StringValue av \<noteq> None) xs
     \<Longrightarrow> \<exists>a. convert_loop aset attr xs = Inr a"
  by (induction xs arbitrary: attr) (auto split: option.splits)

lemma convert_loop_panics:
  "\<not> list_all (\<lambda>(k, v). case v of None \<Rightarrow> False | Some av \<Rightarrow> StringValue av \<noteq> None) xs
     \<Longrightarrow> convert_loop aset attr xs = Inl NilPointer"
  by (induction xs arbitrary: attr) (auto split: option.splits)

lemma new_Message_ok:
  assumes "well_formed sqsMsg"
  shows "\<exists>m. new_Message aset sqsMsg = Inr m"
proof -
  from assms obtain b where b: "Body sqsMsg = Some b"
    by (auto simp: well_formed_def)
  from assms have "list_all (\<lambda>(k, v). case v of None \<Rightarrow> False | Some av \<Rightarrow> StringValue av \<noteq> None)
      (Message_MessageAttributes sqsMsg)"
    unfolding well_formed_def by blast
  from convert_loop_ok [OF this, of aset "[]"] obtain a
    where "convert_loop aset [] (Message_MessageAttributes sqsMsg) = Inr a" ..
  with b show ?thesis by (simp add: new_Message_def convertToMsgAttrs_def)
qed

lemma new_Message_panics:
  assumes "\<not> well_formed sqsMsg"
  shows "new_Message aset sqsMsg = Inl NilPointer"
proof (cases "list_all (\<lambda>(k, v). case v of None \<Rightarrow> False | Some av \<Rightarrow> StringValue av \<noteq> None)
      (Message_MessageAttributes sqsMsg)")
  case True
  with assms have b: "Body sqsMsg = None" unfolding well_formed_def by blast
  from convert_loop_ok [OF True, of aset "[]"] obtain a
    where "convert_loop aset [] (Message_MessageAttributes sqsMsg) = Inr a" ..
  with b show ?thesis by (simp add: new_Message_def convertToMsgAttrs_def)
next
  case False
  from convert_loop_panics [OF False, of aset "[]"] show ?thesis
    by (simp add: new_Message_def convertToMsgAttrs_def)
qed

lemma dispatch_no_panic_ok:
  "new_Message aset sqsMsg = Inr m \<Longrightarrow> Panic p \<notin> set (dispatch aset s r svc sqsMsg)"
  by (auto simp: dispatch_def split: option.splits)

text \<open>
  Claim C2. For a received message from which the receiver's message \<open>m\<close> is built: if
  the receiver returns nil, the dispatch calls \<open>DeleteMessage\<close> once, for the queue and
  the receipt handle of the message, and never \<open>ChangeMessageVisibility\<close>; if it returns
  an error, the dispatch calls \<open>ChangeMessageVisibility\<close> once, for that queue and
  handle and with the configured retry timeout, and never \<open>DeleteMessage\<close>.
\<close>

theorem dispatch_calls:
  assumes "new_Message aset sqsMsg = Inr m"
  shows "(r m = None \<longrightarrow>
            calls_of (dispatch aset s r svc sqsMsg) =
              [DeleteMessage (QueueURL s) (ReceiptHandle sqsMsg)] \<and>
            length (filter is_Delete (calls_of (dispatch aset s r svc sqsMsg))) = 1 \<and>
            length (filter is_ChangeVisibility (calls_of (dispatch aset s r svc sqsMsg))) = 0) \<and>
         (r m \<noteq> None \<longrightarrow>
            calls_of (dispatch aset s r svc sqsMsg) =
              [ChangeMessageVisibility (QueueURL s) (ReceiptHandle sqsMsg) (retryTimeout s)] \<and>
            length (filter is_ChangeVisibility (calls_of (dispatch aset s r svc sqsMsg))) = 1 \<and>
            length (filter is_Delete (calls_of (dispatch aset s r svc sqsMsg))) = 0)"
  using assms by (auto simp: dispatch_def split: option.splits)

lemma dispatch_releases_once: "releases (dispatch aset s r svc sqsMsg) = 1"
  by (auto simp: dispatch_def releases_def split: option.splits sum.splits)

section \<open>Properties of Serve and Shutdown\<close>

lemma apply_opts_gate:
  "apply_opts opts s = Inr s' \<Longrightarrow> maxConcurrentReceives s' = maxConcurrentReceives s"
  by (induction opts arbitrary: s) (auto split: sum.splits)

lemma NewServer_gate:
  "NewServer sess url cl timeout opts = Inr s0 \<Longrightarrow>
     maxConcurrentReceives s0 = make_chan (nat (max 1 cl))"
  by (auto simp: NewServer_def Let_def max_def split: option.splits dest!: apply_opts_gate)

lemma serve_runs_inv: "gate_inv s \<Longrightarrow> gate_inv (serve_runs pc0 s)"
  by (induction pc0 s rule: serve_runs.induct)
     (auto simp: gate_inv_def gate_def chan_close_def chan_send_def split: chan_op.splits if_splits)

lemma serve_runs_cap: "chan_cap (gate (serve_runs pc0 s)) = chan_cap (gate s)"
  by (induction pc0 s rule: serve_runs.induct)
     (auto simp: gate_def chan_close_def chan_send_def split: chan_op.splits if_splits)

lemma task_runs_inv: "gate_inv s \<Longrightarrow> gate_inv (task_runs aset i s)"
  by (auto simp: task_runs_def Let_def gate_inv_def gate_def chan_recv_def
           split: task_pc.splits sum.splits chan_op.splits if_splits)

lemma task_runs_cap: "chan_cap (gate (task_runs aset i s)) = chan_cap (gate s)"
  by (auto simp: task_runs_def Let_def gate_def chan_recv_def
           split: task_pc.splits sum.splits chan_op.splits if_splits)

lemma other_inv:
  "gate_inv s \<Longrightarrow> gate_inv (receive_message_returns res s)"
  "gate_inv s \<Longrightarrow> gate_inv (receive_returns i err s)"
  "gate_inv s \<Longrightarrow> gate_inv (svc_returns i err s)"
  "gate_inv s \<Longrightarrow> gate_inv (shutdown_called ctx s)"
  "gate_inv s \<Longrightarrow> gate_inv (ctx_done j s)"
  "gate_inv s \<Longrightarrow> gate_inv (tick j s)"
  by (auto simp: receive_message_returns_def receive_returns_def
        svc_returns_def shutdown_called_def ctx_done_def tick_def Let_def gate_inv_def gate_def
        split: serve_pc.splits sum.splits task_pc.splits shutdown_pc.splits option.splits)

lemma other_cap:
  "chan_cap (gate (receive_message_returns res s)) = chan_cap (gate s)"
  "chan_cap (gate (receive_returns i err s)) = chan_cap (gate s)"
  "chan_cap (gate (svc_returns i err s)) = chan_cap (gate s)"
  "chan_cap (gate (shutdown_called ctx s)) = chan_cap (gate s)"
  "chan_cap (gate (ctx_done j s)) = chan_cap (gate s)"
  "chan_cap (gate (tick j s)) = chan_cap (gate s)"
  by (auto simp: receive_message_returns_def receive_returns_def
        svc_returns_def shutdown_called_def ctx_done_def tick_def Let_def gate_def
        split: serve_pc.splits sum.splits task_pc.splits shutdown_pc.splits option.splits)

lemma step_inv: "gate_inv s \<Longrightarrow> gate_inv (step aset ev s)"
  by (cases ev) (simp_all add: serve_runs_inv task_runs_inv other_inv)

lemma step_cap: "chan_cap (gate (step aset ev s)) = chan_cap (gate s)"
  by (cases ev) (simp_all add: serve_runs_cap task_runs_cap other_cap)

lemma run_inv: "gate_inv s \<Longrightarrow> gate_inv (run aset evs s)"
  by (induction evs arbitrary: s) (simp_all add: step_inv del: step.simps)

lemma run_cap: "chan_cap (gate (run aset evs s)) = chan_cap (gate s)"
  by (induction evs arbitrary: s) (simp_all add: step_cap del: step.simps)

lemma executing_le: "executing s \<le> length (tasks s)"
  by (simp add: executing_def)

text \<open>
  \<open>Serve\<close> in front of a message: with room in the channel it takes a slot and starts
  the goroutine in one step; with the channel full it stays where it is.
\<close>

lemma Serve_acquires_then_spawns:
  assumes "\<not> crashed s" and "serve s = AtRange (Some m # rest)"
    and "\<not> chan_closed (maxConcurrentReceives (srv s))"
    and "chan_len (maxConcurrentReceives (srv s)) < chan_cap (maxConcurrentReceives (srv s))"
  shows "step aset ServeRuns s =
           s\<lparr>srv := (srv s)\<lparr>maxConcurrentReceives :=
                  (maxConcurrentReceives (srv s))
                    \<lparr>chan_len := chan_len (maxConcurrentReceives (srv s)) + 1\<rparr>\<rparr>,
             tasks := tasks s @ [\<lparr>t_sqsMsg = m, pc = AtStart\<rparr>],
             serve := AtRange rest\<rparr>"
  using assms by (simp add: chan_send_def)

lemma Serve_blocks_on_full_gate:
  assumes "serve s = AtRange (Some m # rest)"
    and "\<not> chan_closed (maxConcurrentReceives (srv s))"
    and "chan_len (maxConcurrentReceives (srv s)) = chan_cap (maxConcurrentReceives (srv s))"
  shows "step aset ServeRuns s = s"
  using assms by (simp add: chan_send_def)

lemma release_proceeds:
  assumes "gate_inv s" and "\<not> crashed s" and "i < length (tasks s)"
    and "pc (tasks s ! i) = AtDefer b"
  shows "0 < chan_len (maxConcurrentReceives (srv s)) \<and>
         step aset (TaskRuns i) s =
           s\<lparr>srv := (srv s)\<lparr>maxConcurrentReceives :=
                  (maxConcurrentReceives (srv s))
                    \<lparr>chan_len := chan_len (maxConcurrentReceives (srv s)) - 1\<rparr>\<rparr>,
             tasks := take i (tasks s) @ drop (Suc i) (tasks s),
             crashed := b\<rparr>"
proof -
  from assms(1,3) have p: "0 < chan_len (maxConcurrentReceives (srv s))"
    by (cases "tasks s") (auto simp: gate_inv_def gate_def)
  with assms(2,3,4) show ?thesis
    by (simp add: task_runs_def Let_def chan_recv_def)
qed

lemma goroutine_runs_to_its_end:
  assumes "gate_inv s" and "\<not> crashed s" and "i < length (tasks s)"
    and "pc (tasks s ! i) = AtStart"
    and "new_Message aset (t_sqsMsg (tasks s ! i)) = Inr m"
  shows "run aset [TaskRuns i, ReceiveReturns i err, SvcReturns i err', TaskRuns i] s =
           s\<lparr>srv := (srv s)\<lparr>maxConcurrentReceives :=
                  (maxConcurrentReceives (srv s))
                    \<lparr>chan_len := chan_len (maxConcurrentReceives (srv s)) - 1\<rparr>\<rparr>,
             tasks := take i (tasks s) @ drop (Suc i) (tasks s),
             calls := calls s @ [call_after_Receive (srv s) (t_sqsMsg (tasks s ! i)) err]\<rparr>"
proof -
  from assms(1,3) have p: "0 < chan_len (maxConcurrentReceives (srv s))"
    by (cases "tasks s") (auto simp: gate_inv_def gate_def)
  with assms(2-5) show ?thesis
    by (cases err)
       (simp_all add: task_runs_def receive_returns_def svc_returns_def chan_recv_def Let_def)
qed

lemma goroutine_panics_to_its_end:
  assumes "gate_inv s" and "\<not> crashed s" and "i < length (tasks s)"
    and "pc (tasks s ! i) = AtStart"
    and "new_Message aset (t_sqsMsg (tasks s ! i)) = Inl p"
  shows "run aset [TaskRuns i, TaskRuns i] s =
           s\<lparr>srv := (srv s)\<lparr>maxConcurrentReceives :=
                  (maxConcurrentReceives (srv s))
                    \<lparr>chan_len := chan_len (maxConcurrentReceives (srv s)) - 1\<rparr>\<rparr>,
             tasks := take i (tasks s) @ drop (Suc i) (tasks s),
             crashed := True\<rparr>"
proof -
  from assms(1,3) have p: "0 < chan_len (maxConcurrentReceives (srv s))"
    by (cases "tasks s") (auto simp: gate_inv_def gate_def)
  with assms(2-5) show ?thesis
    by (simp add: task_runs_def chan_recv_def Let_def)
qed

text \<open>
  Claim C1. Let \<open>NewServer\<close> build a server for the concurrency \<open>cl\<close>, so that the
  channel has capacity \<open>N = max 1 cl\<close>, and let \<open>s\<close> be the state after any sequence of
  events, however the threads are interleaved and whatever the receiver and the service
  answer. In \<open>s\<close> at most \<open>N\<close> goroutines are inside the receiver, and the channel holds
  exactly one value for each goroutine alive: \<open>Serve\<close> sends one before it starts a
  goroutine. Every goroutine gives its value back exactly once. A goroutine that has left
  its body finds a value in the channel, and its deferred function takes one value out
  and ends the goroutine. A goroutine at its start reaches that point on each path:
  when its message is built, for every answer \<open>err\<close> of the receiver and every answer
  \<open>err'\<close> of the call on \<open>Svc\<close> that follows, its four steps leave the channel one value
  shorter and the goroutine gone, with the one call added; when building the message
  panics, its two steps do the same and then the panic ends the process. The dispatch
  run on its own receives from the channel once on each path.
\<close>

theorem gate_bounds_executing_receivers:
  assumes "NewServer sess url cl timeout opts = Inr s0"
    and "s = run aset evs (start s0)"
  shows "executing s \<le> nat (max 1 cl) \<and>
         chan_len (maxConcurrentReceives (srv s)) = length (tasks s) \<and>
         length (tasks s) \<le> nat (max 1 cl) \<and>
         (\<not> crashed s \<and> i < length (tasks s) \<longrightarrow>
            (pc (tasks s ! i) = AtDefer b \<longrightarrow>
               0 < chan_len (maxConcurrentReceives (srv s)) \<and>
               step aset (TaskRuns i) s =
                 s\<lparr>srv := (srv s)\<lparr>maxConcurrentReceives :=
                        (maxConcurrentReceives (srv s))
                          \<lparr>chan_len := chan_len (maxConcurrentReceives (srv s)) - 1\<rparr>\<rparr>,
                   tasks := take i (tasks s) @ drop (Suc i) (tasks s),
                   crashed := b\<rparr>) \<and>
            (pc (tasks s ! i) = AtStart \<and>
             new_Message aset (t_sqsMsg (tasks s ! i)) = Inr m \<longrightarrow>
               run aset [TaskRuns i, ReceiveReturns i err, SvcReturns i err', TaskRuns i] s =
                 s\<lparr>srv := (srv s)\<lparr>maxConcurrentReceives :=
                        (maxConcurrentReceives (srv s))
                          \<lparr>chan_len := chan_len (maxConcurrentReceives (srv s)) - 1\<rparr>\<rparr>,
                   tasks := take i (tasks s) @ drop (Suc i) (tasks s),
                   calls := calls s @
                     [call_after_Receive (srv s) (t_sqsMsg (tasks s ! i)) err]\<rparr>) \<and>
            (pc (tasks s ! i) = AtStart \<and>
             new_Message aset (t_sqsMsg (tasks s ! i)) = Inl p \<longrightarrow>
               run aset [TaskRuns i, TaskRuns i] s =
                 s\<lparr>srv := (srv s)\<lparr>maxConcurrentReceives :=
                        (maxConcurrentReceives (srv s))
                          \<lparr>chan_len := chan_len (maxConcurrentReceives (srv s)) - 1\<rparr>\<rparr>,
                   tasks := take i (tasks s) @ drop (Suc i) (tasks s),
                   crashed := True\<rparr>)) \<and>
         releases (dispatch aset sv r svc sqsMsg) = 1"
proof -
  from NewServer_gate [OF assms(1)] have g: "gate (start s0) = make_chan (nat (max 1 cl))"
    by (simp add: gate_def start_def)
  then have "gate_inv (start s0)"
    by (simp add: gate_inv_def make_chan_def start_def)
  then have inv: "gate_inv s" unfolding assms(2) by (rule run_inv)
  have cap: "chan_cap (gate s) = nat (max 1 cl)"
    unfolding assms(2) using g by (simp add: run_cap make_chan_def)
  have ex: "executing s \<le> length (tasks s)" by (rule executing_le)
  have A: "executing s \<le> nat (max 1 cl) \<and>
         chan_len (maxConcurrentReceives (srv s)) = length (tasks s) \<and>
         length (tasks s) \<le> nat (max 1 cl)"
    using inv cap ex by (simp add: gate_inv_def gate_def)
  have B: "\<not> crashed s \<and> i < length (tasks s) \<longrightarrow>
            (pc (tasks s ! i) = AtDefer b \<longrightarrow>
               0 < chan_len (maxConcurrentReceives (srv s)) \<and>
               step aset (TaskRuns i) s =
                 s\<lparr>srv := (srv s)\<lparr>maxConcurrentReceives :=
                        (maxConcurrentReceives (srv s))
                          \<lparr>chan_len := chan_len (maxConcurrentReceives (srv s)) - 1\<rparr>\<rparr>,
                   tasks := take i (tasks s) @ drop (Suc i) (tasks s),
                   crashed := b\<rparr>) \<and>
            (pc (tasks s ! i) = AtStart \<and>
             new_Message aset (t_sqsMsg (tasks s ! i)) = Inr m \<longrightarrow>
               run aset [TaskRuns i, ReceiveReturns i err, SvcReturns i err', TaskRuns i] s =
                 s\<lparr>srv := (srv s)\<lparr>maxConcurrentReceives :=
                        (maxConcurrentReceives (srv s))
                          \<lparr>chan_len := chan_len (maxConcurrentReceives (srv s)) - 1\<rparr>\<rparr>,
                   tasks := take i (tasks s) @ drop (Suc i) (tasks s),
                   calls := calls s @
                     [call_after_Receive (srv s) (t_sqsMsg (tasks s ! i)) err]\<rparr>) \<and>
            (pc (tasks s ! i) = AtStart \<and>
             new_Message aset (t_sqsMsg (tasks s ! i)) = Inl p \<longrightarrow>
               run aset [TaskRuns i, TaskRuns i] s =
                 s\<lparr>srv := (srv s)\<lparr>maxConcurrentReceives :=
                        (maxConcurrentReceives (srv s))
                          \<lparr>chan_len := chan_len (maxConcurrentReceives (srv s)) - 1\<rparr>\<rparr>,
                   tasks := take i (tasks s) @ drop (Suc i) (tasks s),
                   crashed := True\<rparr>)"
    using release_proceeds [OF inv, of i b aset]
      goroutine_runs_to_its_end [OF inv, of i aset m err err']
      goroutine_panics_to_its_end [OF inv, of i aset p]
    by blast
  from A B dispatch_releases_once [of aset sv r svc sqsMsg] show ?thesis by blast
qed

lemma apply_opts_receiver:
  "apply_opts opts s = Inr s' \<Longrightarrow> receiverCtx_done s' = receiverCtx_done s"
  by (induction opts arbitrary: s) (auto split: sum.splits)

lemma serve_runs_frame:
  "shutdowns (serve_runs pc0 s) = shutdowns s"
  "receiverCtx_done (srv (serve_runs pc0 s)) = receiverCtx_done (srv s)"
  "crashed (serve_runs pc0 s) = crashed s"
  by (induction pc0 s rule: serve_runs.induct)
     (auto simp: chan_close_def chan_send_def split: chan_op.splits)

lemma task_runs_frame:
  "shutdowns (task_runs aset i s) = shutdowns s"
  "receiverCtx_done (srv (task_runs aset i s)) = receiverCtx_done (srv s)"
  "serve (task_runs aset i s) = serve s"
  "calls (task_runs aset i s) = calls s"
  "chan_closed (gate (task_runs aset i s)) = chan_closed (gate s)"
  by (auto simp: task_runs_def Let_def chan_recv_def gate_def
           split: task_pc.splits sum.splits chan_op.splits)

lemma other_frame:
  "shutdowns (receive_message_returns res s) = shutdowns s"
  "receiverCtx_done (srv (receive_message_returns res s)) = receiverCtx_done (srv s)"
  "shutdowns (receive_returns i err s) = shutdowns s"
  "receiverCtx_done (srv (receive_returns i err s)) = receiverCtx_done (srv s)"
  "shutdowns (svc_returns i err s) = shutdowns s"
  "receiverCtx_done (srv (svc_returns i err s)) = receiverCtx_done (srv s)"
  "receiverCtx_done (srv (shutdown_called ctx s)) = receiverCtx_done (srv s)"
  "receiverCtx_done (srv (tick j s)) = receiverCtx_done (srv s)"
  by (auto simp: receive_message_returns_def receive_returns_def svc_returns_def
        shutdown_called_def tick_def Let_def
        split: serve_pc.splits sum.splits task_pc.splits shutdown_pc.splits option.splits)

lemma other_calls_keep_call:
  assumes "i < length (shutdowns s)"
  shows "i < length (shutdowns (shutdown_called ctx s)) \<and>
         shutdowns (shutdown_called ctx s) ! i = shutdowns s ! i"
    and "j \<noteq> i \<Longrightarrow> i < length (shutdowns (ctx_done j s)) \<and>
         shutdowns (ctx_done j s) ! i = shutdowns s ! i"
    and "j \<noteq> i \<Longrightarrow> i < length (shutdowns (tick j s)) \<and>
         shutdowns (tick j s) ! i = shutdowns s ! i"
  using assms
  by (auto simp: shutdown_called_def ctx_done_def tick_def nth_append
        split: option.splits shutdown_pc.splits)

lemma step_keeps_call:
  assumes "ev \<noteq> Tick i" and "ev \<noteq> CtxDone i" and "i < length (shutdowns s)"
  shows "i < length (shutdowns (step aset ev s)) \<and>
         shutdowns (step aset ev s) ! i = shutdowns s ! i"
  using assms other_calls_keep_call [OF assms(3)]
  by (cases ev) (simp_all add: serve_runs_frame task_runs_frame other_frame)

lemma step_returned:
  assumes "i < length (shutdowns s)" and "shutdowns s ! i = ShutdownReturned e"
  shows "i < length (shutdowns (step aset ev s)) \<and>
         shutdowns (step aset ev s) ! i = ShutdownReturned e"
proof (cases "ev = Tick i \<or> ev = CtxDone i")
  case True
  with assms show ?thesis by (auto simp: tick_def ctx_done_def)
next
  case False
  with assms step_keeps_call [of ev i s aset] show ?thesis by simp
qed

lemma step_receiver_kept:
  assumes "i < length (shutdowns s)" and "shutdowns s ! i = ShutdownReturned e"
    and "no_other_CtxDone i ev"
  shows "receiverCtx_done (srv (step aset ev s)) = receiverCtx_done (srv s)"
  using assms
  by (cases ev) (simp_all add: serve_runs_frame task_runs_frame other_frame ctx_done_def)

lemma run_returned:
  "i < length (shutdowns s) \<Longrightarrow> shutdowns s ! i = ShutdownReturned e \<Longrightarrow>
     i < length (shutdowns (run aset evs s)) \<and>
     shutdowns (run aset evs s) ! i = ShutdownReturned e \<and>
     (list_all (no_other_CtxDone i) evs \<longrightarrow>
        receiverCtx_done (srv (run aset evs s)) = receiverCtx_done (srv s))"
proof (induction evs arbitrary: s)
  case Nil
  then show ?case by simp
next
  case (Cons ev evs)
  from step_returned [OF Cons.prems, of aset ev]
  have a: "i < length (shutdowns (step aset ev s))"
    and b: "shutdowns (step aset ev s) ! i = ShutdownReturned e"
    by blast+
  from Cons.IH [OF a b] step_receiver_kept [OF Cons.prems, of ev aset]
  show ?case by (simp del: step.simps)
qed

lemma serve_runs_open': "open_inv s \<Longrightarrow> serve s = pc0 \<Longrightarrow> open_inv (serve_runs pc0 s)"
  by (induction pc0 s rule: serve_runs.induct)
     (auto simp: open_inv_def gate_def chan_close_def chan_send_def split: chan_op.splits)

lemma serve_runs_open: "open_inv s \<Longrightarrow> open_inv (serve_runs (serve s) s)"
  by (simp add: serve_runs_open')

lemma other_open:
  "open_inv s \<Longrightarrow> open_inv (receive_message_returns res s)"
  "open_inv s \<Longrightarrow> open_inv (receive_returns i err s)"
  "open_inv s \<Longrightarrow> open_inv (svc_returns i err s)"
  "open_inv s \<Longrightarrow> open_inv (shutdown_called ctx s)"
  "open_inv s \<Longrightarrow> open_inv (ctx_done j s)"
  "open_inv s \<Longrightarrow> open_inv (tick j s)"
  by (auto simp: open_inv_def receive_message_returns_def receive_returns_def
        svc_returns_def shutdown_called_def ctx_done_def tick_def Let_def gate_def
        split: serve_pc.splits sum.splits task_pc.splits shutdown_pc.splits option.splits)

lemma task_runs_open: "open_inv s \<Longrightarrow> open_inv (task_runs aset i s)"
  by (simp add: open_inv_def task_runs_frame)

lemma step_open: "open_inv s \<Longrightarrow> open_inv (step aset ev s)"
  by (cases ev) (simp_all add: serve_runs_open task_runs_open other_open)

lemma run_open: "open_inv s \<Longrightarrow> open_inv (run aset evs s)"
  by (induction evs arbitrary: s) (simp_all add: step_open del: step.simps)

lemma not_ReceiveMessage_after_Receive: "\<not> is_ReceiveMessage (call_after_Receive sv m err)"
  by (cases err) (simp_all add: call_after_Receive_def)

lemma other_serve_frame:
  "serve (receive_returns i err s) = serve s"
  "filter is_ReceiveMessage (calls (receive_returns i err s)) = filter is_ReceiveMessage (calls s)"
  "serve (svc_returns i err s) = serve s"
  "calls (svc_returns i err s) = calls s"
  "serve (shutdown_called ctx s) = serve s"
  "calls (shutdown_called ctx s) = calls s"
  "serve (ctx_done j s) = serve s"
  "calls (ctx_done j s) = calls s"
  "serve (tick j s) = serve s"
  "calls (tick j s) = calls s"
  by (auto simp: receive_returns_def svc_returns_def shutdown_called_def ctx_done_def tick_def
        Let_def not_ReceiveMessage_after_Receive
        split: task_pc.splits shutdown_pc.splits option.splits)

lemma step_serve_returned:
  assumes "serve s = ServeReturned e"
  shows "serve (step aset ev s) = ServeReturned e \<and>
         filter is_ReceiveMessage (calls (step aset ev s)) = filter is_ReceiveMessage (calls s)"
  using assms
  by (cases ev) (simp_all add: task_runs_frame other_serve_frame receive_message_returns_def)

lemma run_serve_returned:
  "serve s = ServeReturned e \<Longrightarrow>
     serve (run aset evs s) = ServeReturned e \<and>
     filter is_ReceiveMessage (calls (run aset evs s)) = filter is_ReceiveMessage (calls s)"
proof (induction evs arbitrary: s)
  case Nil
  then show ?case by simp
next
  case (Cons ev evs)
  from step_serve_returned [OF Cons.prems, of aset ev]
  have a: "serve (step aset ev s) = ServeReturned e"
    and b: "filter is_ReceiveMessage (calls (step aset ev s)) = filter is_ReceiveMessage (calls s)"
    by blast+
  from Cons.IH [OF a] b show ?case by (simp del: step.simps)
qed

text \<open>
  Claim C4. When \<open>ReceiveMessage\<close> returns an error to a running \<open>Serve\<close>, \<open>Serve\<close>
  returns that error in the same step and changes nothing else. Whatever happens
  afterwards, \<open>Serve\<close> stays returned with that error and no further \<open>ReceiveMessage\<close>
  call is made: the receive is not retried.
\<close>

theorem receive_error_ends_Serve:
  assumes "\<not> crashed s" and "serve s = InReceiveMessage"
  shows "step aset (ReceiveMessageReturns (Inl err)) s = s\<lparr>serve := ServeReturned err\<rparr> \<and>
         (\<forall>evs. serve (run aset evs (step aset (ReceiveMessageReturns (Inl err)) s)) =
                  ServeReturned err \<and>
                filter is_ReceiveMessage
                  (calls (run aset evs (step aset (ReceiveMessageReturns (Inl err)) s))) =
                  filter is_ReceiveMessage (calls s))"
proof -
  have 1: "step aset (ReceiveMessageReturns (Inl err)) s = s\<lparr>serve := ServeReturned err\<rparr>"
    using assms by (simp add: receive_message_returns_def)
  have "serve (s\<lparr>serve := ServeReturned err\<rparr>) = ServeReturned err" by simp
  from run_serve_returned [OF this, of aset] 1 show ?thesis by simp
qed

text \<open>
  Claim C6. Every call of \<open>Shutdown\<close> with a nil context, the first or a later one,
  panics with the message \<open>context not set\<close>: it is not ignored and it returns no
  error, and nothing else changes, the server context is not canceled by it.
\<close>

theorem Shutdown_nil_context_panics:
  "shutdown_called None s =
     s\<lparr>shutdowns := shutdowns s @ [ShutdownPanicked (PanicMsg ''context not set'')]\<rparr> \<and>
   (\<not> crashed s \<longrightarrow>
      step aset (ShutdownCalled None) s =
        s\<lparr>shutdowns := shutdowns s @ [ShutdownPanicked (PanicMsg ''context not set'')]\<rparr>)"
  by (simp add: shutdown_called_def)

text \<open>
  Claim C3, amended. In every state \<open>s\<close> that a server built by \<open>NewServer\<close> reaches:
  a call of \<open>Shutdown\<close> with a context, the first or a later one, first cancels the
  server context and then waits in its loop. For a call \<open>i\<close> that waits, only two
  events end the wait. A tick of its ticker that finds the channel empty makes it return
  \<open>ErrServerClosed\<close> without touching the receiver context; the call stays returned,
  and the receiver context stays as it is unless another call of \<open>Shutdown\<close> takes
  its context's \<open>Done\<close>. A tick that finds the channel non-empty changes nothing. When
  its select takes the context's \<open>Done\<close>, whether the channel is empty or not, the call
  cancels the receiver context and returns the context's error. \<open>Serve\<close>, at its select
  with the server context canceled, returns \<open>ErrServerClosed\<close> without a further call.
\<close>

theorem Shutdown_protocol:
  assumes "NewServer sess url cl timeout opts = Inr s0"
    and "s = run aset evs (start s0)"
    and "\<not> crashed s"
  shows "step aset (ShutdownCalled (Some c)) s =
           s\<lparr>srv := (srv s)\<lparr>serverCtx_done := True\<rparr>,
             shutdowns := shutdowns s @ [InShutdown c]\<rparr> \<and>
         (i < length (shutdowns s) \<and> shutdowns s ! i = InShutdown c \<longrightarrow>
            (chan_len (maxConcurrentReceives (srv s)) = 0 \<longrightarrow>
               step aset (Tick i) s =
                 s\<lparr>shutdowns := (shutdowns s)[i := ShutdownReturned ErrServerClosed]\<rparr> \<and>
               (\<forall>evs'. shutdowns (run aset evs' (step aset (Tick i) s)) ! i =
                          ShutdownReturned ErrServerClosed \<and>
                        (list_all (no_other_CtxDone i) evs' \<longrightarrow>
                           receiverCtx_done (srv (run aset evs' (step aset (Tick i) s))) =
                             receiverCtx_done (srv s)))) \<and>
            (chan_len (maxConcurrentReceives (srv s)) \<noteq> 0 \<longrightarrow> step aset (Tick i) s = s) \<and>
            step aset (CtxDone i) s =
              s\<lparr>srv := (srv s)\<lparr>receiverCtx_done := True\<rparr>,
                shutdowns := (shutdowns s)[i := ShutdownReturned (ctx_Err c)]\<rparr> \<and>
            (\<forall>ev. ev \<noteq> Tick i \<and> ev \<noteq> CtxDone i \<longrightarrow>
               shutdowns (step aset ev s) ! i = InShutdown c)) \<and>
         (serve s = AtSelect \<and> serverCtx_done (srv s) \<longrightarrow>
            serve (step aset ServeRuns s) = ServeReturned ErrServerClosed \<and>
            calls (step aset ServeRuns s) = calls s)"
proof -
  from NewServer_gate [OF assms(1)] have g: "gate (start s0) = make_chan (nat (max 1 cl))"
    by (simp add: gate_def start_def)
  have "open_inv (start s0)" using g by (simp add: open_inv_def make_chan_def)
  then have o: "open_inv s" unfolding assms(2) by (rule run_open)
  have A: "step aset (ShutdownCalled (Some c)) s =
           s\<lparr>srv := (srv s)\<lparr>serverCtx_done := True\<rparr>,
             shutdowns := shutdowns s @ [InShutdown c]\<rparr>"
    using assms(3) by (simp add: shutdown_called_def)
  have D: "serve s = AtSelect \<and> serverCtx_done (srv s) \<longrightarrow>
            serve (step aset ServeRuns s) = ServeReturned ErrServerClosed \<and>
            calls (step aset ServeRuns s) = calls s"
    using assms(3) o by (auto simp: open_inv_def gate_def chan_close_def)
  have B: "i < length (shutdowns s) \<and> shutdowns s ! i = InShutdown c \<longrightarrow>
            (chan_len (maxConcurrentReceives (srv s)) = 0 \<longrightarrow>
               step aset (Tick i) s =
                 s\<lparr>shutdowns := (shutdowns s)[i := ShutdownReturned ErrServerClosed]\<rparr> \<and>
               (\<forall>evs'. shutdowns (run aset evs' (step aset (Tick i) s)) ! i =
                          ShutdownReturned ErrServerClosed \<and>
                        (list_all (no_other_CtxDone i) evs' \<longrightarrow>
                           receiverCtx_done (srv (run aset evs' (step aset (Tick i) s))) =
                             receiverCtx_done (srv s)))) \<and>
            (chan_len (maxConcurrentReceives (srv s)) \<noteq> 0 \<longrightarrow> step aset (Tick i) s = s) \<and>
            step aset (CtxDone i) s =
              s\<lparr>srv := (srv s)\<lparr>receiverCtx_done := True\<rparr>,
                shutdowns := (shutdowns s)[i := ShutdownReturned (ctx_Err c)]\<rparr> \<and>
            (\<forall>ev. ev \<noteq> Tick i \<and> ev \<noteq> CtxDone i \<longrightarrow>
               shutdowns (step aset ev s) ! i = InShutdown c)"
  proof
    assume h: "i < length (shutdowns s) \<and> shutdowns s ! i = InShutdown c"
    then have l: "i < length (shutdowns s)" and w: "shutdowns s ! i = InShutdown c"
      by simp_all
    have t0: "chan_len (maxConcurrentReceives (srv s)) = 0 \<longrightarrow>
               step aset (Tick i) s =
                 s\<lparr>shutdowns := (shutdowns s)[i := ShutdownReturned ErrServerClosed]\<rparr> \<and>
               (\<forall>evs'. shutdowns (run aset evs' (step aset (Tick i) s)) ! i =
                          ShutdownReturned ErrServerClosed \<and>
                        (list_all (no_other_CtxDone i) evs' \<longrightarrow>
                           receiverCtx_done (srv (run aset evs' (step aset (Tick i) s))) =
                             receiverCtx_done (srv s)))"
    proof
      assume z: "chan_len (maxConcurrentReceives (srv s)) = 0"
      let ?s' = "s\<lparr>shutdowns := (shutdowns s)[i := ShutdownReturned ErrServerClosed]\<rparr>"
      have 1: "step aset (Tick i) s = ?s'"
        using assms(3) l w z by (simp add: tick_def)
      have 2: "i < length (shutdowns ?s')"
        and 3: "shutdowns ?s' ! i = ShutdownReturned ErrServerClosed"
        using l by simp_all
      have 4: "receiverCtx_done (srv ?s') = receiverCtx_done (srv s)" by simp
      from run_returned [OF 2 3, of aset] 4
      have "\<forall>evs'. shutdowns (run aset evs' ?s') ! i = ShutdownReturned ErrServerClosed \<and>
                        (list_all (no_other_CtxDone i) evs' \<longrightarrow>
                           receiverCtx_done (srv (run aset evs' ?s')) =
                             receiverCtx_done (srv s))"
        by simp
      with 1 show "step aset (Tick i) s =
                 s\<lparr>shutdowns := (shutdowns s)[i := ShutdownReturned ErrServerClosed]\<rparr> \<and>
               (\<forall>evs'. shutdowns (run aset evs' (step aset (Tick i) s)) ! i =
                          ShutdownReturned ErrServerClosed \<and>
                        (list_all (no_other_CtxDone i) evs' \<longrightarrow>
                           receiverCtx_done (srv (run aset evs' (step aset (Tick i) s))) =
                             receiverCtx_done (srv s)))"
        by simp
    qed
    have t1: "chan_len (maxConcurrentReceives (srv s)) \<noteq> 0 \<longrightarrow> step aset (Tick i) s = s"
      using assms(3) l w by (simp add: tick_def)
    have cd: "step aset (CtxDone i) s =
              s\<lparr>srv := (srv s)\<lparr>receiverCtx_done := True\<rparr>,
                shutdowns := (shutdowns s)[i := ShutdownReturned (ctx_Err c)]\<rparr>"
      using assms(3) l w by (simp add: ctx_done_def)
    have ot: "\<forall>ev. ev \<noteq> Tick i \<and> ev \<noteq> CtxDone i \<longrightarrow>
               shutdowns (step aset ev s) ! i = InShutdown c"
    proof (intro allI impI)
      fix ev assume "ev \<noteq> Tick i \<and> ev \<noteq> CtxDone i"
      with step_keeps_call [of ev i s aset] l w
      show "shutdowns (step aset ev s) ! i = InShutdown c"
        by (simp del: step.simps)
    qed
    from t0 t1 cd ot
    show "(chan_len (maxConcurrentReceives (srv s)) = 0 \<longrightarrow>
               step aset (Tick i) s =
                 s\<lparr>shutdowns := (shutdowns s)[i := ShutdownReturned ErrServerClosed]\<rparr> \<and>
               (\<forall>evs'. shutdowns (run aset evs' (step aset (Tick i) s)) ! i =
                          ShutdownReturned ErrServerClosed \<and>
                        (list_all (no_other_CtxDone i) evs' \<longrightarrow>
                           receiverCtx_done (srv (run aset evs' (step aset (Tick i) s))) =
                             receiverCtx_done (srv s)))) \<and>
            (chan_len (maxConcurrentReceives (srv s)) \<noteq> 0 \<longrightarrow> step aset (Tick i) s = s) \<and>
            step aset (CtxDone i) s =
              s\<lparr>srv := (srv s)\<lparr>receiverCtx_done := True\<rparr>,
                shutdowns := (shutdowns s)[i := ShutdownReturned (ctx_Err c)]\<rparr> \<and>
            (\<forall>ev. ev \<noteq> Tick i \<and> ev \<noteq> CtxDone i \<longrightarrow>
               shutdowns (step aset ev s) ! i = InShutdown c)"
      by (intro conjI)
  qed
  from A B D show ?thesis by (intro conjI)
qed

text \<open>
  The transition system and the dispatch run on its own agree: a goroutine that runs
  from its start to its end adds to the calls of the system the calls of \<open>dispatch\<close>, and
  gives its slot back.
\<close>

lemma dispatch_call_after_Receive:
  "new_Message aset sqsMsg = Inr m \<Longrightarrow>
     calls_of (dispatch aset sv r svc sqsMsg) = [call_after_Receive sv sqsMsg (r m)]"
  by (auto simp: dispatch_def call_after_Receive_def split: option.splits)

lemma one_goroutine_run:
  assumes "\<not> crashed s" and "tasks s = [\<lparr>t_sqsMsg = sqsMsg, pc = AtStart\<rparr>]"
    and "new_Message aset sqsMsg = Inr m"
    and "chan_len (maxConcurrentReceives (srv s)) = 1"
  shows "run aset [TaskRuns 0, ReceiveReturns 0 (r m), SvcReturns 0 (svc c), TaskRuns 0] s =
           s\<lparr>srv := (srv s)\<lparr>maxConcurrentReceives :=
                  (maxConcurrentReceives (srv s))\<lparr>chan_len := 0\<rparr>\<rparr>,
             tasks := [],
             calls := calls s @ calls_of (dispatch aset (srv s) r svc sqsMsg)\<rparr>"
  using assms
  by (cases "r m")
     (simp_all add: dispatch_call_after_Receive task_runs_def receive_returns_def svc_returns_def
        chan_recv_def Let_def call_after_Receive_def)

lemma list_all_update: "list_all P xs \<Longrightarrow> P x \<Longrightarrow> list_all P (xs[i := x])"
  by (induction xs arbitrary: i) (auto split: nat.splits)

lemma list_all_remove: "list_all P xs \<Longrightarrow> list_all P (take i xs @ drop (Suc i) xs)"
  by (auto simp: list_all_iff dest: in_set_takeD in_set_dropD)

lemma list_all_nth: "list_all P xs \<Longrightarrow> i < length xs \<Longrightarrow> P (xs ! i)"
  by (simp add: list_all_length)

lemma serve_runs_healthy: "healthy s \<Longrightarrow> serve s = pc0 \<Longrightarrow> healthy (serve_runs pc0 s)"
  by (induction pc0 s rule: serve_runs.induct)
     (auto simp: healthy_def chan_close_def chan_send_def split: chan_op.splits)

lemma task_runs_healthy:
  assumes "healthy s"
  shows "healthy (task_runs aset i s)"
proof (cases "i < length (tasks s)")
  case False
  with assms show ?thesis by (simp add: task_runs_def)
next
  case True
  let ?t = "tasks s ! i"
  from assms have all: "list_all (\<lambda>t. well_formed (t_sqsMsg t) \<and> pc t \<noteq> AtDefer True) (tasks s)"
    and nc: "\<not> crashed s" and so: "serve_ok (serve s)"
    by (simp_all add: healthy_def)
  from list_all_nth [OF all True]
  have wf: "well_formed (t_sqsMsg ?t)" and np: "pc ?t \<noteq> AtDefer True" by simp_all
  show ?thesis
  proof (cases "pc ?t")
    case AtStart
    from new_Message_ok [OF wf, of aset] obtain m where m: "new_Message aset (t_sqsMsg ?t) = Inr m" ..
    have "list_all (\<lambda>t. well_formed (t_sqsMsg t) \<and> pc t \<noteq> AtDefer True)
            ((tasks s)[i := ?t\<lparr>pc := InReceive m\<rparr>])"
      using all wf by (intro list_all_update) simp_all
    with True AtStart m nc so show ?thesis
      by (simp add: task_runs_def Let_def healthy_def)
  next
    case (AtDefer b)
    with np have b: "\<not> b" by simp
    have "list_all (\<lambda>t. well_formed (t_sqsMsg t) \<and> pc t \<noteq> AtDefer True)
            (take i (tasks s) @ drop (Suc i) (tasks s))"
      using all by (rule list_all_remove)
    with True AtDefer b nc so assms show ?thesis
      by (simp add: task_runs_def Let_def healthy_def split: chan_op.splits)
  next
    case (InReceive m)
    with True assms show ?thesis by (simp add: task_runs_def Let_def)
  next
    case InChangeVisibility
    with True assms show ?thesis by (simp add: task_runs_def Let_def)
  next
    case InDelete
    with True assms show ?thesis by (simp add: task_runs_def Let_def)
  qed
qed

lemma receive_returns_healthy:
  assumes "healthy s"
  shows "healthy (receive_returns i err s)"
proof (cases "i < length (tasks s)")
  case False
  with assms show ?thesis by (simp add: receive_returns_def)
next
  case True
  let ?t = "tasks s ! i"
  from assms have all: "list_all (\<lambda>t. well_formed (t_sqsMsg t) \<and> pc t \<noteq> AtDefer True) (tasks s)"
    by (simp add: healthy_def)
  from list_all_nth [OF all True] have wf: "well_formed (t_sqsMsg ?t)" by simp
  have "list_all (\<lambda>t. well_formed (t_sqsMsg t) \<and> pc t \<noteq> AtDefer True)
          ((tasks s)[i := ?t\<lparr>pc := (case err of Some e \<Rightarrow> InChangeVisibility | None \<Rightarrow> InDelete)\<rparr>])"
    using all wf by (intro list_all_update) (simp_all split: option.splits)
  with True assms show ?thesis
    by (simp add: receive_returns_def Let_def healthy_def split: task_pc.splits)
qed

lemma svc_returns_healthy:
  assumes "healthy s"
  shows "healthy (svc_returns i err s)"
proof (cases "i < length (tasks s)")
  case False
  with assms show ?thesis by (simp add: svc_returns_def)
next
  case True
  let ?t = "tasks s ! i"
  from assms have all: "list_all (\<lambda>t. well_formed (t_sqsMsg t) \<and> pc t \<noteq> AtDefer True) (tasks s)"
    by (simp add: healthy_def)
  from list_all_nth [OF all True] have wf: "well_formed (t_sqsMsg ?t)" by simp
  have "list_all (\<lambda>t. well_formed (t_sqsMsg t) \<and> pc t \<noteq> AtDefer True)
          ((tasks s)[i := ?t\<lparr>pc := AtDefer False\<rparr>])"
    using all wf by (intro list_all_update) simp_all
  with True assms show ?thesis
    by (simp add: svc_returns_def Let_def healthy_def split: task_pc.splits)
qed

lemma other_healthy:
  "healthy s \<Longrightarrow> ev_ok (ReceiveMessageReturns res) \<Longrightarrow> healthy (receive_message_returns res s)"
  "healthy s \<Longrightarrow> healthy (shutdown_called ctx s)"
  "healthy s \<Longrightarrow> healthy (ctx_done j s)"
  "healthy s \<Longrightarrow> healthy (tick j s)"
  by (auto simp: healthy_def receive_message_returns_def shutdown_called_def ctx_done_def
        tick_def split: serve_pc.splits sum.splits shutdown_pc.splits option.splits)

lemma step_healthy: "healthy s \<Longrightarrow> ev_ok ev \<Longrightarrow> healthy (step aset ev s)"
  by (cases ev)
     (simp_all add: serve_runs_healthy task_runs_healthy receive_returns_healthy
        svc_returns_healthy other_healthy)

lemma run_healthy: "healthy s \<Longrightarrow> list_all ev_ok evs \<Longrightarrow> healthy (run aset evs s)"
  by (induction evs arbitrary: s) (simp_all add: step_healthy del: step.simps)

text \<open>
  Claim C10. Building the message reads the body pointer and every attribute's string
  pointer unchecked. If the received message has a body and every attribute has a string
  value, the message is built and the dispatch does not panic, whatever the receiver and
  the service answer. If not, building it panics on a nil pointer: the receiver is never
  called and, after the deferred release, the panic leaves the goroutine. In the running
  server: as long as every message that \<open>ReceiveMessage\<close> returns is of the first kind,
  no sequence of events ends the process by a panic, and \<open>Serve\<close> does not panic on a nil
  pointer.
\<close>

theorem dispatch_total_iff_well_formed:
  "(well_formed sqsMsg \<longrightarrow>
      (\<exists>m. new_Message aset sqsMsg = Inr m) \<and>
      (\<forall>p. Panic p \<notin> set (dispatch aset s r svc sqsMsg))) \<and>
   (\<not> well_formed sqsMsg \<longrightarrow>
      new_Message aset sqsMsg = Inl NilPointer \<and>
      dispatch aset s r svc sqsMsg = [Release, Panic NilPointer]) \<and>
   (list_all ev_ok evs \<longrightarrow>
      \<not> crashed (run aset evs (start s0)) \<and>
      serve (run aset evs (start s0)) \<noteq> ServePanicked NilPointer)"
proof -
  have A: "well_formed sqsMsg \<longrightarrow>
      (\<exists>m. new_Message aset sqsMsg = Inr m) \<and>
      (\<forall>p. Panic p \<notin> set (dispatch aset s r svc sqsMsg))"
  proof
    assume w: "well_formed sqsMsg"
    from new_Message_ok [OF w, of aset] obtain m where "new_Message aset sqsMsg = Inr m" ..
    then show "(\<exists>m. new_Message aset sqsMsg = Inr m) \<and>
      (\<forall>p. Panic p \<notin> set (dispatch aset s r svc sqsMsg))"
      using dispatch_no_panic_ok by blast
  qed
  have B: "\<not> well_formed sqsMsg \<longrightarrow>
      new_Message aset sqsMsg = Inl NilPointer \<and>
      dispatch aset s r svc sqsMsg = [Release, Panic NilPointer]"
  proof
    assume n: "\<not> well_formed sqsMsg"
    from new_Message_panics [OF n, of aset]
    show "new_Message aset sqsMsg = Inl NilPointer \<and>
      dispatch aset s r svc sqsMsg = [Release, Panic NilPointer]"
      by (simp add: dispatch_def)
  qed
  have C: "list_all ev_ok evs \<longrightarrow>
      \<not> crashed (run aset evs (start s0)) \<and>
      serve (run aset evs (start s0)) \<noteq> ServePanicked NilPointer"
  proof
    assume a: "list_all ev_ok evs"
    have "healthy (start s0)" by (simp add: healthy_def start_def)
    from run_healthy [OF this a, of aset]
    have h: "healthy (run aset evs (start s0))" .
    then have "serve_ok (serve (run aset evs (start s0)))" by (simp add: healthy_def)
    then have "serve (run aset evs (start s0)) \<noteq> ServePanicked NilPointer" by auto
    with h show "\<not> crashed (run aset evs (start s0)) \<and>
      serve (run aset evs (start s0)) \<noteq> ServePanicked NilPointer"
      by (simp add: healthy_def)
  qed
  from A B C show ?thesis by (intro conjI)
qed

section \<open>The theorems on the concrete inputs\<close>

lemmas example_defs =
  set_single_def example_msg_def example_server_def example_ctx_def drained_trace_def
  busy_trace_def waiting_trace_def crash_trace_def bodyless_msg_def accepting_def
  rejecting_def svc_ok_def svc_failing_def spawned_trace_def leaving_trace_def
  spawned_bodyless_trace_def

lemmas step_defs =
  start_def make_chan_def chan_send_def chan_recv_def chan_close_def
  receive_message_returns_def task_runs_def receive_returns_def svc_returns_def
  shutdown_called_def ctx_done_def tick_def new_Message_def convertToMsgAttrs_def
  call_after_Receive_def Let_def

lemma NewServer_example: "NewServer None ''q'' 1 30 [] = Inr example_server"
  by (simp add: NewServer_def example_server_def)

lemma new_Message_example:
  "new_Message set_single example_msg =
     Inr \<lparr>m_Attributes = [(''k'', [''v''])], m_Body = ''hello''\<rparr>"
  by (simp add: new_Message_def convertToMsgAttrs_def example_defs)

lemma new_Message_bodyless: "new_Message set_single bodyless_msg = Inl NilPointer"
  by (simp add: new_Message_def convertToMsgAttrs_def example_defs)

lemma busy_state:
  "run set_single busy_trace (start example_server) =
     \<lparr>srv = example_server\<lparr>maxConcurrentReceives :=
              \<lparr>chan_cap = 1, chan_len = 1, chan_closed = False\<rparr>\<rparr>,
      serve = AtRange [Some example_msg], shutdowns = [],
      tasks = [\<lparr>t_sqsMsg = example_msg,
                pc = InReceive \<lparr>m_Attributes = [(''k'', [''v''])], m_Body = ''hello''\<rparr>\<rparr>],
      calls = [ReceiveMessage 10 20 ''q'' [''All'']], crashed = False\<rparr>"
  by (simp add: example_defs step_defs)

lemma spawned_state:
  "run set_single spawned_trace (start example_server) =
     \<lparr>srv = example_server\<lparr>maxConcurrentReceives :=
              \<lparr>chan_cap = 1, chan_len = 1, chan_closed = False\<rparr>\<rparr>,
      serve = AtRange [], shutdowns = [],
      tasks = [\<lparr>t_sqsMsg = example_msg, pc = AtStart\<rparr>],
      calls = [ReceiveMessage 10 20 ''q'' [''All'']], crashed = False\<rparr>"
  by (simp add: example_defs step_defs)

lemma spawned_bodyless_state:
  "run set_single spawned_bodyless_trace (start example_server) =
     \<lparr>srv = example_server\<lparr>maxConcurrentReceives :=
              \<lparr>chan_cap = 1, chan_len = 1, chan_closed = False\<rparr>\<rparr>,
      serve = AtRange [], shutdowns = [],
      tasks = [\<lparr>t_sqsMsg = bodyless_msg, pc = AtStart\<rparr>],
      calls = [ReceiveMessage 10 20 ''q'' [''All'']], crashed = False\<rparr>"
  by (simp add: example_defs step_defs)

lemma leaving_state:
  "run set_single leaving_trace (start example_server) =
     \<lparr>srv = example_server\<lparr>maxConcurrentReceives :=
              \<lparr>chan_cap = 1, chan_len = 1, chan_closed = False\<rparr>\<rparr>,
      serve = AtRange [], shutdowns = [],
      tasks = [\<lparr>t_sqsMsg = example_msg, pc = AtDefer False\<rparr>],
      calls = [ReceiveMessage 10 20 ''q'' [''All''], DeleteMessage ''q'' (Some ''H'')],
      crashed = False\<rparr>"
  by (simp add: example_defs step_defs)

lemma waiting_state:
  "run set_single waiting_trace (start example_server) =
     \<lparr>srv = example_server\<lparr>maxConcurrentReceives :=
              \<lparr>chan_cap = 1, chan_len = 1, chan_closed = False\<rparr>, serverCtx_done := True\<rparr>,
      serve = AtRange [], shutdowns = [InShutdown example_ctx],
      tasks = [\<lparr>t_sqsMsg = example_msg, pc = AtStart\<rparr>],
      calls = [ReceiveMessage 10 20 ''q'' [''All'']], crashed = False\<rparr>"
  by (simp add: example_defs step_defs)

lemma drained_state:
  "run set_single drained_trace (start example_server) =
     \<lparr>srv = example_server\<lparr>serverCtx_done := True\<rparr>,
      serve = AtRange [], shutdowns = [InShutdown example_ctx],
      tasks = [],
      calls = [ReceiveMessage 10 20 ''q'' [''All''], DeleteMessage ''q'' (Some ''H'')],
      crashed = False\<rparr>"
  by (simp add: example_defs step_defs)

lemma polling_state:
  "run set_single [ServeRuns] (start example_server) =
     \<lparr>srv = example_server, serve = InReceiveMessage, shutdowns = [], tasks = [],
      calls = [ReceiveMessage 10 20 ''q'' [''All'']], crashed = False\<rparr>"
  by (simp add: example_defs step_defs)

lemma cancelled_state:
  "run set_single [ShutdownCalled (Some example_ctx)] (start example_server) =
     \<lparr>srv = example_server\<lparr>serverCtx_done := True\<rparr>, serve = AtSelect,
      shutdowns = [InShutdown example_ctx], tasks = [], calls = [], crashed = False\<rparr>"
  by (simp add: example_defs step_defs)

text \<open>
  Later calls of \<open>Shutdown\<close> act like the first: after a call has returned
  \<open>ErrServerClosed\<close>, a second call whose context is done cancels the receiver context
  and returns its context's error, and a third call with a nil context panics.
\<close>

lemma later_Shutdown_calls:
  "shutdowns (run set_single
      [Tick 0, ShutdownCalled (Some example_ctx), CtxDone 1, ShutdownCalled None]
      (run set_single drained_trace (start example_server))) =
     [ShutdownReturned ErrServerClosed, ShutdownReturned DeadlineExceeded,
      ShutdownPanicked (PanicMsg ''context not set'')] \<and>
   receiverCtx_done (srv (run set_single
      [Tick 0, ShutdownCalled (Some example_ctx), CtxDone 1, ShutdownCalled None]
      (run set_single drained_trace (start example_server))))"
  unfolding drained_state by (simp add: example_defs step_defs)

theorem gate_bounds_executing_receivers_witness:
  "NewServer None ''q'' 1 30 [] = Inr example_server \<and>
   executing (run set_single busy_trace (start example_server)) = 1 \<and>
   executing (run set_single busy_trace (start example_server)) \<le> nat (max 1 1) \<and>
   chan_len (maxConcurrentReceives (srv (run set_single busy_trace (start example_server)))) =
     length (tasks (run set_single busy_trace (start example_server))) \<and>
   pc (tasks (run set_single leaving_trace (start example_server)) ! 0) = AtDefer False \<and>
   chan_len (maxConcurrentReceives (srv (run set_single leaving_trace (start example_server)))) = 1 \<and>
   chan_len (maxConcurrentReceives
     (srv (step set_single (TaskRuns 0) (run set_single leaving_trace (start example_server))))) = 0 \<and>
   tasks (step set_single (TaskRuns 0) (run set_single leaving_trace (start example_server))) = [] \<and>
   pc (tasks (run set_single spawned_trace (start example_server)) ! 0) = AtStart \<and>
   chan_len (maxConcurrentReceives
     (srv (run set_single
        [TaskRuns 0, ReceiveReturns 0 (Some (Err ''failed'')), SvcReturns 0 (Some (Err ''unavailable'')),
         TaskRuns 0]
        (run set_single spawned_trace (start example_server))))) = 0 \<and>
   tasks (run set_single
        [TaskRuns 0, ReceiveReturns 0 (Some (Err ''failed'')), SvcReturns 0 (Some (Err ''unavailable'')),
         TaskRuns 0]
        (run set_single spawned_trace (start example_server))) = [] \<and>
   new_Message set_single bodyless_msg = Inl NilPointer \<and>
   chan_len (maxConcurrentReceives
     (srv (run set_single [TaskRuns 0, TaskRuns 0]
        (run set_single spawned_bodyless_trace (start example_server))))) = 0 \<and>
   tasks (run set_single [TaskRuns 0, TaskRuns 0]
        (run set_single spawned_bodyless_trace (start example_server))) = [] \<and>
   releases (dispatch set_single example_server rejecting svc_failing example_msg) = 1"
proof -
  let ?B = "run set_single busy_trace (start example_server)"
  let ?L = "run set_single leaving_trace (start example_server)"
  let ?S = "run set_single spawned_trace (start example_server)"
  let ?P = "run set_single spawned_bodyless_trace (start example_server)"
  have e: "executing ?B = 1"
    unfolding busy_state by (simp add: executing_def)
  note TB = gate_bounds_executing_receivers [where aset = set_single and evs = busy_trace
      and sv = example_server and r = rejecting and svc = svc_failing
      and sqsMsg = example_msg, OF NewServer_example refl]
  have b1: "executing ?B \<le> nat (max 1 1)"
    by (rule TB [THEN conjunct1])
  have b2: "chan_len (maxConcurrentReceives (srv ?B)) = length (tasks ?B)"
    by (rule TB [THEN conjunct2, THEN conjunct1])
  have b3: "releases (dispatch set_single example_server rejecting svc_failing example_msg) = 1"
    by (rule TB [THEN conjunct2, THEN conjunct2, THEN conjunct2, THEN conjunct2])
  have l: "\<not> crashed ?L \<and> 0 < length (tasks ?L)" and lp: "pc (tasks ?L ! 0) = AtDefer False"
    and ll: "chan_len (maxConcurrentReceives (srv ?L)) = 1"
    unfolding leaving_state by simp_all
  note TL = gate_bounds_executing_receivers [where aset = set_single and evs = leaving_trace
      and i = 0 and b = False, OF NewServer_example refl]
  note L = TL [THEN conjunct2, THEN conjunct2, THEN conjunct2, THEN conjunct1, THEN mp, OF l,
      THEN conjunct1, THEN mp, OF lp, THEN conjunct2]
  have l1: "chan_len (maxConcurrentReceives (srv (step set_single (TaskRuns 0) ?L))) = 0"
    unfolding L using ll by simp
  have l2: "tasks (step set_single (TaskRuns 0) ?L) = []"
    unfolding L unfolding leaving_state by simp
  have s0: "\<not> crashed ?S \<and> 0 < length (tasks ?S)" and sp: "pc (tasks ?S ! 0) = AtStart"
    and sl: "chan_len (maxConcurrentReceives (srv ?S)) = 1"
    and sm: "new_Message set_single (t_sqsMsg (tasks ?S ! 0)) =
      Inr \<lparr>m_Attributes = [(''k'', [''v''])], m_Body = ''hello''\<rparr>"
    unfolding spawned_state by (simp_all add: new_Message_example)
  note TS = gate_bounds_executing_receivers [where aset = set_single and evs = spawned_trace
      and i = 0 and err = "Some (Err ''failed'')" and err' = "Some (Err ''unavailable'')",
      OF NewServer_example refl]
  note S = TS [THEN conjunct2, THEN conjunct2, THEN conjunct2, THEN conjunct1, THEN mp, OF s0,
      THEN conjunct2, THEN conjunct1, THEN mp, OF conjI [OF sp sm]]
  have s1: "chan_len (maxConcurrentReceives
     (srv (run set_single
        [TaskRuns 0, ReceiveReturns 0 (Some (Err ''failed'')), SvcReturns 0 (Some (Err ''unavailable'')),
         TaskRuns 0] ?S))) = 0"
    unfolding S using sl by simp
  have s2: "tasks (run set_single
        [TaskRuns 0, ReceiveReturns 0 (Some (Err ''failed'')), SvcReturns 0 (Some (Err ''unavailable'')),
         TaskRuns 0] ?S) = []"
    unfolding S unfolding spawned_state by simp
  have p0: "\<not> crashed ?P \<and> 0 < length (tasks ?P)" and pp: "pc (tasks ?P ! 0) = AtStart"
    and pl: "chan_len (maxConcurrentReceives (srv ?P)) = 1"
    and pm: "new_Message set_single (t_sqsMsg (tasks ?P ! 0)) = Inl NilPointer"
    unfolding spawned_bodyless_state by (simp_all add: new_Message_bodyless)
  note TP = gate_bounds_executing_receivers [where aset = set_single
      and evs = spawned_bodyless_trace and i = 0, OF NewServer_example refl]
  note P = TP [THEN conjunct2, THEN conjunct2, THEN conjunct2, THEN conjunct1, THEN mp, OF p0,
      THEN conjunct2, THEN conjunct2, THEN mp, OF conjI [OF pp pm]]
  have p1: "chan_len (maxConcurrentReceives
     (srv (run set_single [TaskRuns 0, TaskRuns 0] ?P))) = 0"
    unfolding P using pl by simp
  have p2: "tasks (run set_single [TaskRuns 0, TaskRuns 0] ?P) = []"
    unfolding P unfolding spawned_bodyless_state by simp
  show ?thesis
    by (intro conjI)
       (fact NewServer_example e b1 b2 b3 lp ll l1 l2 sp s1 s2 new_Message_bodyless p1 p2)+
qed

theorem dispatch_calls_witness:
  "new_Message set_single example_msg =
     Inr \<lparr>m_Attributes = [(''k'', [''v''])], m_Body = ''hello''\<rparr> \<and>
   accepting \<lparr>m_Attributes = [(''k'', [''v''])], m_Body = ''hello''\<rparr> = None \<and>
   calls_of (dispatch set_single example_server accepting svc_failing example_msg) =
     [DeleteMessage ''q'' (Some ''H'')] \<and>
   rejecting \<lparr>m_Attributes = [(''k'', [''v''])], m_Body = ''hello''\<rparr> \<noteq> None \<and>
   calls_of (dispatch set_single example_server rejecting svc_ok example_msg) =
     [ChangeMessageVisibility ''q'' (Some ''H'') 30]"
proof -
  have a: "accepting \<lparr>m_Attributes = [(''k'', [''v''])], m_Body = ''hello''\<rparr> = None"
    by (simp add: accepting_def)
  have r: "rejecting \<lparr>m_Attributes = [(''k'', [''v''])], m_Body = ''hello''\<rparr> \<noteq> None"
    by (simp add: rejecting_def)
  have h: "ReceiptHandle example_msg = Some ''H''" "QueueURL example_server = ''q''"
    "retryTimeout example_server = 30"
    by (simp_all add: example_msg_def example_server_def)
  from dispatch_calls [OF new_Message_example, of accepting example_server svc_failing]
    dispatch_calls [OF new_Message_example, of rejecting example_server svc_ok]
    new_Message_example a r h
  show ?thesis by simp
qed

lemma crash_state:
  "crashed (run set_single crash_trace (start example_server))"
  by (simp add: crash_trace_def example_defs step_defs)

theorem dispatch_total_iff_well_formed_witness:
  "well_formed example_msg \<and>
   (\<forall>p. Panic p \<notin> set (dispatch set_single example_server accepting svc_ok example_msg)) \<and>
   \<not> well_formed bodyless_msg \<and>
   dispatch set_single example_server accepting svc_ok bodyless_msg = [Release, Panic NilPointer] \<and>
   list_all ev_ok drained_trace \<and>
   \<not> crashed (run set_single drained_trace (start example_server)) \<and>
   \<not> list_all ev_ok crash_trace \<and>
   crashed (run set_single crash_trace (start example_server))"
proof -
  have w: "well_formed example_msg" by (simp add: well_formed_def example_msg_def)
  have n: "\<not> well_formed bodyless_msg"
    by (simp add: well_formed_def bodyless_msg_def example_msg_def)
  have d: "list_all ev_ok drained_trace" using w by (simp add: drained_trace_def)
  have c: "\<not> list_all ev_ok crash_trace" using n by (simp add: crash_trace_def)
  note T1 = dispatch_total_iff_well_formed
    [of example_msg set_single example_server accepting svc_ok drained_trace example_server]
  note T2 = dispatch_total_iff_well_formed
    [of bodyless_msg set_single example_server accepting svc_ok drained_trace example_server]
  have f1: "\<forall>p. Panic p \<notin> set (dispatch set_single example_server accepting svc_ok example_msg)"
    by (rule T1 [THEN conjunct1, THEN mp, OF w, THEN conjunct2])
  have f2: "dispatch set_single example_server accepting svc_ok bodyless_msg =
      [Release, Panic NilPointer]"
    by (rule T2 [THEN conjunct2, THEN conjunct1, THEN mp, OF n, THEN conjunct2])
  have f3: "\<not> crashed (run set_single drained_trace (start example_server))"
    by (rule T1 [THEN conjunct2, THEN conjunct2, THEN mp, OF d, THEN conjunct1])
  show ?thesis
    by (intro conjI) (fact w n d c f1 f2 f3 crash_state)+
qed

theorem receive_error_ends_Serve_witness:
  "\<not> crashed (run set_single [ServeRuns] (start example_server)) \<and>
   serve (run set_single [ServeRuns] (start example_server)) = InReceiveMessage \<and>
   serve (run set_single [ServeRuns, ReceiveMessageReturns (Inl (Err ''timeout'')), ServeRuns,
            ServeRuns] (start example_server)) = ServeReturned (Err ''timeout'') \<and>
   filter is_ReceiveMessage
     (calls (run set_single [ServeRuns, ReceiveMessageReturns (Inl (Err ''timeout'')), ServeRuns,
            ServeRuns] (start example_server))) = [ReceiveMessage 10 20 ''q'' [''All'']]"
proof -
  let ?s = "run set_single [ServeRuns] (start example_server)"
  have c: "\<not> crashed ?s" and i: "serve ?s = InReceiveMessage"
    and k: "filter is_ReceiveMessage (calls ?s) = [ReceiveMessage 10 20 ''q'' [''All'']]"
    unfolding polling_state by simp_all
  have r: "run set_single [ServeRuns, ReceiveMessageReturns (Inl (Err ''timeout'')), ServeRuns,
            ServeRuns] (start example_server) =
           run set_single [ServeRuns, ServeRuns]
             (step set_single (ReceiveMessageReturns (Inl (Err ''timeout''))) ?s)"
    by (simp del: step.simps)
  from receive_error_ends_Serve [OF c i, of set_single "Err ''timeout''"] c i k
  show ?thesis unfolding r by simp
qed

theorem Shutdown_nil_context_panics_witness:
  "\<not> crashed (start example_server) \<and>
   shutdowns (step set_single (ShutdownCalled None) (start example_server)) =
     [ShutdownPanicked (PanicMsg ''context not set'')] \<and>
   \<not> serverCtx_done (srv (step set_single (ShutdownCalled None) (start example_server))) \<and>
   \<not> crashed (run set_single waiting_trace (start example_server)) \<and>
   shutdowns (run set_single waiting_trace (start example_server)) = [InShutdown example_ctx] \<and>
   shutdowns (step set_single (ShutdownCalled None)
       (run set_single waiting_trace (start example_server))) =
     [InShutdown example_ctx, ShutdownPanicked (PanicMsg ''context not set'')]"
proof -
  let ?A = "start example_server"
  let ?W = "run set_single waiting_trace (start example_server)"
  have c: "\<not> crashed ?A" and k: "shutdowns ?A = []"
    and d: "\<not> serverCtx_done (srv ?A)"
    by (simp_all add: start_def example_server_def)
  have w: "\<not> crashed ?W" and ws: "shutdowns ?W = [InShutdown example_ctx]"
    unfolding waiting_state by simp_all
  note A = Shutdown_nil_context_panics [of ?A set_single, THEN conjunct2, THEN mp, OF c]
  note W = Shutdown_nil_context_panics [of ?W set_single, THEN conjunct2, THEN mp, OF w]
  have a1: "shutdowns (step set_single (ShutdownCalled None) ?A) =
     [ShutdownPanicked (PanicMsg ''context not set'')]"
    unfolding A using k by simp
  have a2: "\<not> serverCtx_done (srv (step set_single (ShutdownCalled None) ?A))"
    unfolding A using d by simp
  have w1: "shutdowns (step set_single (ShutdownCalled None) ?W) =
     [InShutdown example_ctx, ShutdownPanicked (PanicMsg ''context not set'')]"
    unfolding W using ws by simp
  show ?thesis
    by (intro conjI) (fact c a1 a2 w ws w1)+
qed

text \<open>
  Claim C3 as stated fails. In the run \<open>drained_trace\<close> the only message is handled and
  deleted after Shutdown was called: no goroutine is left and the channel is empty while
  Shutdown waits, before its context is done. No tick has looked at the channel when
  the context is done, and Shutdown cancels the receiver context and returns
  \<open>DeadlineExceeded\<close>, not \<open>ErrServerClosed\<close>.
\<close>

theorem Shutdown_empty_gate_counterexample:
  "tasks (run set_single drained_trace (start example_server)) = [] \<and>
   chan_len (maxConcurrentReceives (srv (run set_single drained_trace (start example_server)))) = 0 \<and>
   shutdowns (run set_single drained_trace (start example_server)) = [InShutdown example_ctx] \<and>
   \<not> receiverCtx_done (srv (run set_single drained_trace (start example_server))) \<and>
   \<not> crashed (run set_single drained_trace (start example_server)) \<and>
   shutdowns (step set_single (CtxDone 0) (run set_single drained_trace (start example_server))) =
     [ShutdownReturned DeadlineExceeded] \<and>
   shutdowns (step set_single (CtxDone 0) (run set_single drained_trace (start example_server))) \<noteq>
     [ShutdownReturned ErrServerClosed] \<and>
   receiverCtx_done
     (srv (step set_single (CtxDone 0) (run set_single drained_trace (start example_server))))"
  unfolding drained_state
  by (simp add: ctx_done_def example_server_def example_ctx_def make_chan_def)

theorem Shutdown_protocol_witness:
  "NewServer None ''q'' 1 30 [] = Inr example_server \<and>
   \<not> crashed (run set_single [] (start example_server)) \<and>
   serverCtx_done
     (srv (step set_single (ShutdownCalled (Some example_ctx))
        (run set_single [] (start example_server)))) \<and>
   shutdowns (run set_single drained_trace (start example_server)) ! 0 = InShutdown example_ctx \<and>
   chan_len (maxConcurrentReceives (srv (run set_single drained_trace (start example_server)))) = 0 \<and>
   shutdowns (step set_single (Tick 0) (run set_single drained_trace (start example_server))) =
     [ShutdownReturned ErrServerClosed] \<and>
   list_all (no_other_CtxDone 0) [CtxDone 0, ServeRuns] \<and>
   \<not> receiverCtx_done
      (srv (run set_single [CtxDone 0, ServeRuns]
         (step set_single (Tick 0) (run set_single drained_trace (start example_server))))) \<and>
   shutdowns (run set_single [ShutdownCalled (Some example_ctx), CtxDone 1]
      (step set_single (Tick 0) (run set_single drained_trace (start example_server)))) ! 0 =
     ShutdownReturned ErrServerClosed \<and>
   shutdowns (run set_single waiting_trace (start example_server)) ! 0 = InShutdown example_ctx \<and>
   chan_len (maxConcurrentReceives (srv (run set_single waiting_trace (start example_server)))) \<noteq> 0 \<and>
   step set_single (Tick 0) (run set_single waiting_trace (start example_server)) =
     run set_single waiting_trace (start example_server) \<and>
   shutdowns (step set_single (CtxDone 0) (run set_single waiting_trace (start example_server))) =
     [ShutdownReturned DeadlineExceeded] \<and>
   receiverCtx_done
     (srv (step set_single (CtxDone 0) (run set_single waiting_trace (start example_server)))) \<and>
   ServeRuns \<noteq> Tick 0 \<and> ServeRuns \<noteq> CtxDone 0 \<and>
   shutdowns (step set_single ServeRuns (run set_single waiting_trace (start example_server))) ! 0 =
     InShutdown example_ctx \<and>
   serve (run set_single [ShutdownCalled (Some example_ctx)] (start example_server)) = AtSelect \<and>
   serverCtx_done
     (srv (run set_single [ShutdownCalled (Some example_ctx)] (start example_server))) \<and>
   serve (step set_single ServeRuns
      (run set_single [ShutdownCalled (Some example_ctx)] (start example_server))) =
     ServeReturned ErrServerClosed"
proof -
  let ?A = "run set_single [] (start example_server)"
  let ?D = "run set_single drained_trace (start example_server)"
  let ?W = "run set_single waiting_trace (start example_server)"
  let ?K = "run set_single [ShutdownCalled (Some example_ctx)] (start example_server)"
  have a: "\<not> crashed ?A"
    by (simp add: start_def)
  have d: "\<not> crashed ?D" "0 < length (shutdowns ?D) \<and> shutdowns ?D ! 0 = InShutdown example_ctx"
    "chan_len (maxConcurrentReceives (srv ?D)) = 0" "shutdowns ?D = [InShutdown example_ctx]"
    "\<not> receiverCtx_done (srv ?D)"
    unfolding drained_state by (simp_all add: example_server_def make_chan_def)
  have w: "\<not> crashed ?W" "0 < length (shutdowns ?W) \<and> shutdowns ?W ! 0 = InShutdown example_ctx"
    "chan_len (maxConcurrentReceives (srv ?W)) \<noteq> 0" "shutdowns ?W = [InShutdown example_ctx]"
    unfolding waiting_state by simp_all
  have k: "\<not> crashed ?K" "serve ?K = AtSelect" "serverCtx_done (srv ?K)"
    unfolding cancelled_state by simp_all
  have e: "ctx_Err example_ctx = DeadlineExceeded" by (simp add: example_ctx_def)
  have n1: "ServeRuns \<noteq> Tick 0" and n2: "ServeRuns \<noteq> CtxDone 0" by simp_all
  have la: "list_all (no_other_CtxDone 0) [CtxDone 0, ServeRuns]" by simp
  note TA = Shutdown_protocol [where aset = set_single and evs = "[]" and c = example_ctx,
      OF NewServer_example refl a]
  have f1: "serverCtx_done (srv (step set_single (ShutdownCalled (Some example_ctx)) ?A))"
    unfolding TA [THEN conjunct1] by simp
  note TD = Shutdown_protocol [where aset = set_single and evs = drained_trace
      and c = example_ctx and i = 0, OF NewServer_example refl d(1)]
  note D = TD [THEN conjunct2, THEN conjunct1, THEN mp, OF d(2)]
  note D1 = D [THEN conjunct1, THEN mp, OF d(3)]
  have f2: "shutdowns (step set_single (Tick 0) ?D) = [ShutdownReturned ErrServerClosed]"
    unfolding D1 [THEN conjunct1] using d(4) by simp
  have "receiverCtx_done
      (srv (run set_single [CtxDone 0, ServeRuns] (step set_single (Tick 0) ?D))) =
      receiverCtx_done (srv ?D)"
    by (rule D1 [THEN conjunct2, THEN spec, THEN conjunct2, THEN mp, OF la])
  with d(5) have f3: "\<not> receiverCtx_done
      (srv (run set_single [CtxDone 0, ServeRuns] (step set_single (Tick 0) ?D)))"
    by (simp del: run.simps step.simps)
  have f3b: "shutdowns (run set_single [ShutdownCalled (Some example_ctx), CtxDone 1]
      (step set_single (Tick 0) ?D)) ! 0 = ShutdownReturned ErrServerClosed"
    by (rule D1 [THEN conjunct2, THEN spec, THEN conjunct1])
  note TW = Shutdown_protocol [where aset = set_single and evs = waiting_trace
      and c = example_ctx and i = 0, OF NewServer_example refl w(1)]
  note W = TW [THEN conjunct2, THEN conjunct1, THEN mp, OF w(2)]
  have f4: "step set_single (Tick 0) ?W = ?W"
    by (rule W [THEN conjunct2, THEN conjunct1, THEN mp, OF w(3)])
  note W3 = W [THEN conjunct2, THEN conjunct2, THEN conjunct1]
  have f5: "shutdowns (step set_single (CtxDone 0) ?W) = [ShutdownReturned DeadlineExceeded]"
    unfolding W3 using w(4) e by simp
  have f6: "receiverCtx_done (srv (step set_single (CtxDone 0) ?W))"
    unfolding W3 by simp
  have f7: "shutdowns (step set_single ServeRuns ?W) ! 0 = InShutdown example_ctx"
    by (rule W [THEN conjunct2, THEN conjunct2, THEN conjunct2, THEN spec,
          THEN mp, OF conjI [OF n1 n2]])
  note TK = Shutdown_protocol [where aset = set_single
      and evs = "[ShutdownCalled (Some example_ctx)]" and c = example_ctx,
      OF NewServer_example refl k(1)]
  have f8: "serve (step set_single ServeRuns ?K) = ServeReturned ErrServerClosed"
    by (rule TK [THEN conjunct2, THEN conjunct2, THEN mp, OF conjI [OF k(2) k(3)],
          THEN conjunct1])
  have d2: "shutdowns ?D ! 0 = InShutdown example_ctx" using d(2) by simp
  have w2: "shutdowns ?W ! 0 = InShutdown example_ctx" using w(2) by simp
  show ?thesis
    by (intro conjI)
       (fact NewServer_example a d(3) d2 w(3) w2 k n1 n2 la f1 f2 f3 f3b f4 f5 f6 f7 f8)+
qed

end
